theory Spec2Isabelle
  imports Main "HOL-Library.Word"
begin

section \<open>Data model of \<^verbatim>\<open>source/runtime/runtime_ir.cpp\<close>\<close>

text \<open>
  The source unit builds an executable graph from a flat list of \<^verbatim>\<open>pnnx\<close> operator
  descriptors, resolves tensor shapes and runs the graph with a readiness-counted work queue.
  Objects the C++ code reaches through \<^verbatim>\<open>std::shared_ptr\<close> live in an explicit store: an
  address is a natural number, the store is a total function from addresses, and
  \<^verbatim>\<open>std::make_shared\<close> takes the next free address.  Pointer equality of the source is
  equality of addresses.  A 32-bit integer is a \<open>32 word\<close>; \<^verbatim>\<open>int32_t\<close> is read with
  \<open>sint\<close>, and a comparison of an \<^verbatim>\<open>int32_t\<close> with a \<^verbatim>\<open>uint32_t\<close> (which C++ performs on
  the unsigned conversions) is equality of the words.
\<close>

type_synonym i32 = "32 word"
type_synonym u32 = "32 word"
type_synonym ptr = nat

text \<open>
  Every \<^verbatim>\<open>CHECK\<close>, \<^verbatim>\<open>LOG(FATAL)\<close>, null dereference and \<^verbatim>\<open>std::out_of_range\<close> of the unit
  ends the process; each site is one constructor.
\<close>

datatype error =
    OutOfRange                \<comment> \<open>\<^verbatim>\<open>vector::at\<close> outside the vector\<close>
  | NullPointer               \<comment> \<open>dereference of a null descriptor\<close>
  | UnsupportedDataType       \<comment> \<open>"The graph only support float32 yet!"\<close>
  | DynamicBatchSize          \<comment> \<open>"Dynamic batch size is not supported!"\<close>
  | UnsupportedShapeSize      \<comment> \<open>"Unsupported shape sizes"\<close>
  | BatchSizeWrong            \<comment> \<open>"Batch size is wrong!"\<close>
  | BufferShapeMismatch       \<comment> \<open>the unnamed checks on buffer dimensions\<close>
  | OperatorsEmpty            \<comment> \<open>\<^verbatim>\<open>CHECK(!pnnx_operators.empty() && !operators.empty())\<close>\<close>
  | OperatorsSizeMismatch     \<comment> \<open>\<^verbatim>\<open>CHECK(pnnx_operators.size() == operators.size())\<close>\<close>
  | MultipleOutputs           \<comment> \<open>"Only support one node one output yet!"\<close>
  | NullOutputOperand         \<comment> \<open>"Operand output is null"\<close>
  | OutputBatchMismatch       \<comment> \<open>\<^verbatim>\<open>CHECK(batch == output_tensors->datas.size())\<close>\<close>
  | OutputTypeMismatch        \<comment> \<open>\<^verbatim>\<open>CHECK(output_tensors->type == kTypeFloat32)\<close>\<close>
  | OutputShapeMismatch       \<comment> \<open>\<^verbatim>\<open>CHECK(output_tensors->shapes == shapes)\<close>\<close>
  | UnknownInputOperandType   \<comment> \<open>"Unknown input operand type"\<close>
  | UnknownParameterType      \<comment> \<open>"Unknown parameter type"\<close>
  | UnknownAttributeType      \<comment> \<open>"Unknown attribute type"\<close>
  | InitGraphFailed           \<comment> \<open>"Init graph failed!"\<close>
  | GraphStatusError          \<comment> \<open>"Graph status error, current state is ..."\<close>
  | GraphOperatorsEmpty       \<comment> \<open>"Graph operators is empty, may be no init"\<close>
  | LayerCreateFailed         \<comment> \<open>"Layer init failed" / "Layer create failed!"\<close>
  | GraphNeedBuild            \<comment> \<open>"Graph need be build!"\<close>
  | InputNodeNotFound         \<comment> \<open>"Can not find the input node"\<close>
  | OutputNodeNotFound        \<comment> \<open>"Can not find the output node"\<close>
  | MeetNumExceeded           \<comment> \<open>\<^verbatim>\<open>CHECK(op->meet_num <= op->input_operands.size())\<close>\<close>
  | LayerInputEmpty           \<comment> \<open>\<^verbatim>\<open>CHECK(!layer_input_datas.empty())\<close>\<close>
  | OutputOperandNull         \<comment> \<open>\<^verbatim>\<open>CHECK(current_op->output_operands != nullptr)\<close>\<close>
  | NullLayer                 \<comment> \<open>\<^verbatim>\<open>current_op->layer->Forward\<close> on a node without a layer\<close>
  | LayerForwardFailed        \<comment> \<open>"layer forward failed, error code: ..."\<close>
  | DataSizeMismatch          \<comment> \<open>\<^verbatim>\<open>CHECK(src.size() == dest.size())\<close> of \<^verbatim>\<open>SetOpInputData\<close>\<close>
  | MultiplePathsToOutput     \<comment> \<open>"The graph only support one path to the output node yet!"\<close>

subsection \<open>Declarations the unit includes\<close>

text \<open>
  The headers of the unit are not part of it.  The types below carry the members the unit
  reads and writes.  Of \<^verbatim>\<open>RuntimeDataType\<close> the unit names \<^verbatim>\<open>kTypeFloat32\<close> only; the other
  members are kept apart by their code.
\<close>

datatype RuntimeDataType = kTypeUnknown | kTypeFloat32 | kTypeOther nat

datatype InferStatus = kInferSuccess | kInferFailed nat

text \<open>
  Modelled from the spec: the lifecycle states \<^verbatim>\<open>GraphState\<close>, declared in a header that is
  missing.  The spec orders them \<open>Uninitialized \<rightarrow> NeedInit \<rightarrow> NeedBuild \<rightarrow> Complete\<close>;
  \<open>GraphState_rank\<close> is the integer the source compares with \<^verbatim>\<open><\<close> and \<^verbatim>\<open>>=\<close>.
\<close>

datatype GraphState = Uninitialized | NeedInit | NeedBuild | Complete

fun GraphState_rank :: "GraphState \<Rightarrow> int" where
  "GraphState_rank Uninitialized = -3"
| "GraphState_rank NeedInit = -2"
| "GraphState_rank NeedBuild = -1"
| "GraphState_rank Complete = 0"

text \<open>
  Modelled from the spec: \<^verbatim>\<open>Tensor<float>\<close>, a buffer of \<open>channels \<times> rows \<times> cols\<close> floats
  whose \<^verbatim>\<open>shapes()\<close> are these three dimensions in this order.  A float is the 32-bit
  pattern that stores it; the unit only copies floats.  The constructor
  \<^verbatim>\<open>Tensor<float>(channels, rows, cols)\<close> takes \<^verbatim>\<open>uint32_t\<close> dimensions and fills the buffer
  with zeros; \<^verbatim>\<open>set_data\<close> copies the elements of the source by value.
\<close>

record Tensor =
  channels :: u32
  rows :: u32
  cols :: u32
  elems :: "32 word list"

definition Tensor_shapes :: "Tensor \<Rightarrow> u32 list" where
  "Tensor_shapes t = [channels t, rows t, cols t]"

definition Tensor_new :: "u32 \<Rightarrow> u32 \<Rightarrow> u32 \<Rightarrow> Tensor" where
  "Tensor_new c r w =
     \<lparr>channels = c, rows = r, cols = w, elems = replicate (unat c * unat r * unat w) 0\<rparr>"

definition set_data :: "Tensor \<Rightarrow> Tensor \<Rightarrow> Tensor" where
  "set_data dest src = dest\<lparr>elems := elems src\<rparr>"

text \<open>
  A layer is a handle into the external registry.  The two functions of the registry the
  unit calls are parameters of the model: \<open>create_layer\<close> for
  \<^verbatim>\<open>LayerRegisterer::CreateLayer\<close> (\<open>None\<close> is the null layer) and \<open>layer_forward\<close> for
  \<^verbatim>\<open>Layer::Forward\<close>, which returns its status and the contents it has written into the
  output buffers it was given.
\<close>

type_synonym Layer = nat

type_synonym layer_forward = "Layer \<Rightarrow> Tensor list \<Rightarrow> Tensor list \<Rightarrow> InferStatus \<times> Tensor list"

subsection \<open>The descriptors of \<^verbatim>\<open>pnnx\<close>\<close>

text \<open>
  Of a \<^verbatim>\<open>pnnx::Operand\<close> the unit reads the producer's name, the consumers' names, the
  type code, the shape and the name; of a \<^verbatim>\<open>pnnx::Operator\<close> the inputs, the outputs, the
  type, the name, the parameters and the attributes.  A descriptor pointer may be null
  (\<open>None\<close>).
\<close>

record pnnx_Operand =
  pnnx_producer :: string
  pnnx_consumers :: "string list"
  pnnx_operand_type :: int
  pnnx_shape :: "i32 list"
  pnnx_operand_name :: string

record pnnx_Parameter =
  pnnx_param_type :: int
  pnnx_b :: bool
  pnnx_i :: i32
  pnnx_f :: "32 word"
  pnnx_s :: string
  pnnx_ai :: "i32 list"
  pnnx_af :: "32 word list"
  pnnx_as :: "string list"

record pnnx_Attribute =
  pnnx_attr_type :: int
  pnnx_attr_shape :: "i32 list"
  pnnx_attr_data :: "8 word list"

record pnnx_Operator =
  pnnx_inputs :: "pnnx_Operand option list"
  pnnx_outputs :: "pnnx_Operand option list"
  pnnx_type :: string
  pnnx_name :: string
  pnnx_params :: "(string \<times> pnnx_Parameter) list"
  pnnx_attrs :: "(string \<times> pnnx_Attribute) list"

subsection \<open>\<^verbatim>\<open>std::map<std::string, V>\<close>\<close>

text \<open>
  A map of the source is an association list kept in the order of its keys, which is the
  order a range-for visits it. \<open>string_less\<close> is \<^verbatim>\<open>std::string\<close>'s \<^verbatim>\<open>operator<\<close>
  (bytes compared as unsigned), \<open>map_insert\<close> is \<^verbatim>\<open>insert\<close>, which keeps the old
  entry when the key is present, and \<open>map_of\<close> is \<^verbatim>\<open>find\<close>.
\<close>

fun string_less :: "string \<Rightarrow> string \<Rightarrow> bool" where
  "string_less [] [] = False"
| "string_less [] (y # ys) = True"
| "string_less (x # xs) [] = False"
| "string_less (x # xs) (y # ys) =
     ((of_char x :: nat) < of_char y \<or> (x = y \<and> string_less xs ys))"

fun map_insert :: "string \<Rightarrow> 'v \<Rightarrow> (string \<times> 'v) list \<Rightarrow> (string \<times> 'v) list" where
  "map_insert k v [] = [(k, v)]"
| "map_insert k v ((k', v') # m) =
     (if k = k' then (k', v') # m
      else if string_less k k' then (k, v) # (k', v') # m
      else (k', v') # map_insert k v m)"

subsection \<open>Runtime operands, operators and the graph\<close>

datatype RuntimeParameter =
    RuntimeParameterUnknown
  | RuntimeParameterBool bool
  | RuntimeParameterInt i32
  | RuntimeParameterFloat "32 word"
  | RuntimeParameterString string
  | RuntimeParameterIntArray "i32 list"
  | RuntimeParameterFloatArray "32 word list"
  | RuntimeParameterStringArray "string list"

record RuntimeAttribute =
  weight_data :: "8 word list"
  attr_shape :: "i32 list"
  attr_type :: RuntimeDataType

record RuntimeOperand =
  operand_name :: string
  shapes :: "i32 list"
  datas :: "Tensor list"
  operand_type :: RuntimeDataType

text \<open>
  \<open>meet_num\<close> is an \<^verbatim>\<open>int32_t\<close> that starts at zero and is only touched by \<^verbatim>\<open>+= 1\<close>, by the
  \<^verbatim>\<open>-= 1\<close> that directly follows a \<^verbatim>\<open>+= 1\<close>, and by the reset to zero; it is a natural
  number here.  \<open>input_operands\<close> and \<open>input_operands_seq\<close> hold addresses of operands, so
  the operand a producer name maps to and its occurrence in the sequence are one object.
\<close>

record RuntimeOperator =
  op_name :: string
  op_type :: string
  layer :: "Layer option"
  output_names :: "string list"
  output_operands :: "ptr option"
  input_operands :: "(string \<times> ptr) list"
  input_operands_seq :: "ptr list"
  output_operators :: "(string \<times> ptr) list"
  params :: "(string \<times> RuntimeParameter) list"
  attribute :: "(string \<times> RuntimeAttribute) list"
  meet_num :: nat

text \<open>
  The members of \<^verbatim>\<open>RuntimeGraph\<close> carry the prefix \<open>m_\<close> in place of the trailing
  underscore of the source (\<open>m_operators\<close> is \<^verbatim>\<open>operators_\<close>).  \<open>m_graph\<close> holds
  \<^verbatim>\<open>graph_->ops\<close>, and is \<open>None\<close> while \<^verbatim>\<open>graph_\<close> is null.  The last four members are
  the store: the nodes and the operands, and the next free address of each.
\<close>

record RuntimeGraph =
  m_graph_state :: GraphState
  m_input_name :: string
  m_output_name :: string
  m_param_path :: string
  m_bin_path :: string
  m_graph :: "pnnx_Operator option list option"
  m_operators :: "ptr list"
  m_input_operators_maps :: "(string \<times> ptr) list"
  m_output_operators_maps :: "(string \<times> ptr) list"
  op_heap :: "ptr \<Rightarrow> RuntimeOperator"
  operand_heap :: "ptr \<Rightarrow> RuntimeOperand"
  free_op :: ptr
  free_operand :: ptr

section \<open>Shape resolver\<close>

text \<open>
  \<open>vector_at\<close> is \<^verbatim>\<open>std::vector::at\<close>.  \<open>and_also\<close> is the \<^verbatim>\<open>&&\<close> of two operands that
  may throw: the right operand is evaluated only when the left one is true.  \<open>at_equal\<close>
  is \<^verbatim>\<open>xs.at(i) == ys.at(j)\<close> and \<open>at_is\<close> is \<^verbatim>\<open>xs.at(i) == v\<close>.  \<open>CHECK\<close> is a
  \<^verbatim>\<open>CHECK\<close> on such a condition.
\<close>

definition vector_at :: "'a list \<Rightarrow> nat \<Rightarrow> error + 'a" where
  "vector_at xs i = (if i < length xs then Inr (xs ! i) else Inl OutOfRange)"

definition and_also :: "error + bool \<Rightarrow> error + bool \<Rightarrow> error + bool" where
  "and_also a b = (case a of Inl e \<Rightarrow> Inl e | Inr c \<Rightarrow> if c then b else Inr False)"

definition at_equal :: "'a list \<Rightarrow> nat \<Rightarrow> 'a list \<Rightarrow> nat \<Rightarrow> error + bool" where
  "at_equal xs i ys j =
     (case vector_at xs i of
        Inl e \<Rightarrow> Inl e
      | Inr x \<Rightarrow> (case vector_at ys j of Inl e \<Rightarrow> Inl e | Inr y \<Rightarrow> Inr (x = y)))"

definition at_is :: "'a list \<Rightarrow> nat \<Rightarrow> 'a \<Rightarrow> error + bool" where
  "at_is xs i v = (case vector_at xs i of Inl e \<Rightarrow> Inl e | Inr x \<Rightarrow> Inr (x = v))"

definition CHECK :: "error + bool \<Rightarrow> error \<Rightarrow> error + unit" where
  "CHECK c err = (case c of Inl e \<Rightarrow> Inl e | Inr b \<Rightarrow> if b then Inr () else Inl err)"

subsection \<open>\<^verbatim>\<open>RuntimeGraphShape::InitOperatorInputTensor\<close>\<close>

text \<open>
  The body of the loop over an existing buffer (lines 36 to 43): \<open>origin_shape\<close> are the
  \<^verbatim>\<open>shapes()\<close> of the buffer, \<open>current_shape\<close> the declared shape of the operand.
\<close>

definition check_input_buffer :: "i32 list \<Rightarrow> Tensor \<Rightarrow> error + unit" where
  "check_input_buffer current_shape t =
     (let origin_shape = Tensor_shapes t in
      if length current_shape = 4
      then CHECK (and_also (at_equal origin_shape 0 current_shape 1)
                  (and_also (at_equal origin_shape 1 current_shape 2)
                            (at_equal origin_shape 2 current_shape 3))) BufferShapeMismatch
      else CHECK (and_also (at_equal origin_shape 1 current_shape 1)
                  (and_also (at_is origin_shape 0 1)
                            (at_is origin_shape 2 1))) BufferShapeMismatch)"

fun check_input_buffers :: "i32 list \<Rightarrow> Tensor list \<Rightarrow> error + unit" where
  "check_input_buffers current_shape [] = Inr ()"
| "check_input_buffers current_shape (t # ts) =
     (case check_input_buffer current_shape t of
        Inl e \<Rightarrow> Inl e
      | Inr _ \<Rightarrow> check_input_buffers current_shape ts)"

text \<open>
  The buffer both passes allocate for one batch element (lines 48 to 52 and 87 to 92), and
  the loop that allocates one buffer per batch element.
\<close>

definition make_buffer :: "i32 list \<Rightarrow> error + Tensor" where
  "make_buffer shp =
     (if length shp = 4
      then (case vector_at shp 1 of
              Inl e \<Rightarrow> Inl e
            | Inr c \<Rightarrow>
               (case vector_at shp 2 of
                  Inl e \<Rightarrow> Inl e
                | Inr h \<Rightarrow>
                   (case vector_at shp 3 of
                      Inl e \<Rightarrow> Inl e
                    | Inr w \<Rightarrow> Inr (Tensor_new c h w))))
      else (case vector_at shp 1 of Inl e \<Rightarrow> Inl e | Inr f \<Rightarrow> Inr (Tensor_new 1 f 1)))"

fun make_buffers :: "nat \<Rightarrow> i32 list \<Rightarrow> error + Tensor list" where
  "make_buffers 0 shp = Inr []"
| "make_buffers (Suc n) shp =
     (case make_buffer shp of
        Inl e \<Rightarrow> Inl e
      | Inr t \<Rightarrow> (case make_buffers n shp of Inl e \<Rightarrow> Inl e | Inr ts \<Rightarrow> Inr (t # ts)))"

text \<open>
  The body of the loop over the input operands of one operator (lines 23 to 54), on the
  operand it is given; it returns the operand as the pass leaves it.
\<close>

definition init_input_operand :: "RuntimeOperand \<Rightarrow> error + RuntimeOperand" where
  "init_input_operand input_operand =
     (if operand_type input_operand \<noteq> kTypeFloat32 then Inl UnsupportedDataType
      else case vector_at (shapes input_operand) 0 of
        Inl e \<Rightarrow> Inl e
      | Inr batch \<Rightarrow>
          if \<not> 0 \<le> sint batch then Inl DynamicBatchSize
          else if \<not> (length (shapes input_operand) = 2 \<or> length (shapes input_operand) = 4)
          then Inl UnsupportedShapeSize
          else if datas input_operand \<noteq> []
          then (if int (length (datas input_operand)) \<noteq> sint batch then Inl BatchSizeWrong
                else case check_input_buffers (shapes input_operand) (datas input_operand) of
                  Inl e \<Rightarrow> Inl e
                | Inr _ \<Rightarrow> Inr input_operand)
          else (case make_buffers (nat (sint batch)) (shapes input_operand) of
                  Inl e \<Rightarrow> Inl e
                | Inr ts \<Rightarrow> Inr (input_operand\<lparr>datas := ts\<rparr>)))"

fun init_input_operands :: "(string \<times> ptr) list \<Rightarrow> (ptr \<Rightarrow> RuntimeOperand)
    \<Rightarrow> error + (ptr \<Rightarrow> RuntimeOperand)" where
  "init_input_operands [] h = Inr h"
| "init_input_operands ((k, r) # m) h =
     (case init_input_operand (h r) of
        Inl e \<Rightarrow> Inl e
      | Inr od \<Rightarrow> init_input_operands m (h(r := od)))"

fun init_input_operators :: "ptr list \<Rightarrow> (ptr \<Rightarrow> RuntimeOperator) \<Rightarrow> (ptr \<Rightarrow> RuntimeOperand)
    \<Rightarrow> error + (ptr \<Rightarrow> RuntimeOperand)" where
  "init_input_operators [] oh h = Inr h"
| "init_input_operators (p # ps) oh h =
     (if input_operands (oh p) = [] then init_input_operators ps oh h
      else case init_input_operands (input_operands (oh p)) h of
        Inl e \<Rightarrow> Inl e
      | Inr h' \<Rightarrow> init_input_operators ps oh h')"

definition InitOperatorInputTensor :: "ptr list \<Rightarrow> RuntimeGraph \<Rightarrow> error + RuntimeGraph" where
  "InitOperatorInputTensor operators g =
     (if operators = [] then Inr g
      else case init_input_operators operators (op_heap g) (operand_heap g) of
        Inl e \<Rightarrow> Inl e
      | Inr h \<Rightarrow> Inr (g\<lparr>operand_heap := h\<rparr>))"

subsection \<open>\<^verbatim>\<open>RuntimeGraphShape::InitOperatorOutputTensor\<close>\<close>

text \<open>
  The body of the loop over the buffers of an output operand that exists (lines 101 to 109).
  \<open>tensor_shapes\<close> is \<^verbatim>\<open>output_tensors->shapes\<close>, the shape of the operand: the loop visits
  every buffer and reads none.
\<close>

definition check_output_buffer :: "i32 list \<Rightarrow> i32 list \<Rightarrow> error + unit" where
  "check_output_buffer tensor_shapes shp =
     (if length shp = 4
      then CHECK (and_also (at_equal tensor_shapes 1 shp 1)
                 (and_also (at_equal tensor_shapes 2 shp 2)
                           (at_equal tensor_shapes 3 shp 3))) BufferShapeMismatch
      else CHECK (and_also (at_is tensor_shapes 0 1)
                 (and_also (at_equal tensor_shapes 1 shp 1)
                           (at_is tensor_shapes 2 1))) BufferShapeMismatch)"

fun check_output_buffers :: "Tensor list \<Rightarrow> i32 list \<Rightarrow> i32 list \<Rightarrow> error + unit" where
  "check_output_buffers [] tensor_shapes shp = Inr ()"
| "check_output_buffers (d # ds) tensor_shapes shp =
     (case check_output_buffer tensor_shapes shp of
        Inl e \<Rightarrow> Inl e
      | Inr _ \<Rightarrow> check_output_buffers ds tensor_shapes shp)"

text \<open>The branch of an output operand that exists (lines 96 to 109).\<close>

definition check_output_operand :: "i32 \<Rightarrow> i32 list \<Rightarrow> RuntimeOperand \<Rightarrow> error + unit" where
  "check_output_operand batch shp output_tensors =
     (if sint batch \<noteq> int (length (datas output_tensors)) then Inl OutputBatchMismatch
      else if operand_type output_tensors \<noteq> kTypeFloat32 then Inl OutputTypeMismatch
      else if shapes output_tensors \<noteq> shp then Inl OutputShapeMismatch
      else check_output_buffers (datas output_tensors) (shapes output_tensors) shp)"

text \<open>The branch of an output operand that is absent (lines 82 to 93).\<close>

definition new_output_operand :: "pnnx_Operand \<Rightarrow> i32 \<Rightarrow> error + RuntimeOperand" where
  "new_output_operand operand batch =
     (case make_buffers (nat (sint batch)) (pnnx_shape operand) of
        Inl e \<Rightarrow> Inl e
      | Inr ts \<Rightarrow>
          Inr \<lparr>operand_name = pnnx_operand_name operand @ ''_output'',
               shapes = pnnx_shape operand,
               datas = ts,
               operand_type = kTypeFloat32\<rparr>)"

text \<open>
  The body of the loop over the descriptors (lines 66 to 110): \<open>pnnx_operator\<close> is
  \<^verbatim>\<open>pnnx_operators.at(i)\<close> and \<open>runtime_op\<close> the address \<^verbatim>\<open>operators.at(i)\<close>.
\<close>

definition init_output_tensor :: "pnnx_Operator option \<Rightarrow> ptr \<Rightarrow> RuntimeGraph \<Rightarrow> error + RuntimeGraph" where
  "init_output_tensor pnnx_operator runtime_op g =
     (case pnnx_operator of
        None \<Rightarrow> Inl NullPointer
      | Some pop \<Rightarrow>
          if \<not> length (pnnx_outputs pop) \<le> 1 then Inl MultipleOutputs
          else (case pnnx_outputs pop of
                  [] \<Rightarrow> Inr g
                | front # _ \<Rightarrow>
                   (case front of
                      None \<Rightarrow> Inl NullOutputOperand
                    | Some operand \<Rightarrow>
                       (case vector_at (pnnx_shape operand) 0 of
                          Inl e \<Rightarrow> Inl e
                        | Inr batch \<Rightarrow>
                           if \<not> 0 \<le> sint batch then Inl DynamicBatchSize
                           else if \<not> (length (pnnx_shape operand) = 2 \<or> length (pnnx_shape operand) = 4)
                           then Inl UnsupportedShapeSize
                           else (case output_operands (op_heap g runtime_op) of
                                   None \<Rightarrow>
                                    (case new_output_operand operand batch of
                                       Inl e \<Rightarrow> Inl e
                                     | Inr output_operand \<Rightarrow>
                                        Inr (g\<lparr>operand_heap := (operand_heap g)(free_operand g := output_operand),
                                                free_operand := Suc (free_operand g),
                                                op_heap := (op_heap g)(runtime_op :=
                                                  (op_heap g runtime_op)\<lparr>output_operands := Some (free_operand g)\<rparr>)\<rparr>))
                                 | Some r \<Rightarrow>
                                    (case check_output_operand batch (pnnx_shape operand) (operand_heap g r) of
                                       Inl e \<Rightarrow> Inl e
                                     | Inr _ \<Rightarrow> Inr g))))))"

fun init_output_tensors :: "(pnnx_Operator option \<times> ptr) list \<Rightarrow> RuntimeGraph \<Rightarrow> error + RuntimeGraph" where
  "init_output_tensors [] g = Inr g"
| "init_output_tensors ((pnnx_operator, runtime_op) # rest) g =
     (case init_output_tensor pnnx_operator runtime_op g of
        Inl e \<Rightarrow> Inl e
      | Inr g' \<Rightarrow> init_output_tensors rest g')"

definition InitOperatorOutputTensor :: "pnnx_Operator option list \<Rightarrow> ptr list \<Rightarrow> RuntimeGraph
    \<Rightarrow> error + RuntimeGraph" where
  "InitOperatorOutputTensor pnnx_operators operators g =
     (if pnnx_operators = [] \<or> operators = [] then Inl OperatorsEmpty
      else if length pnnx_operators \<noteq> length operators then Inl OperatorsSizeMismatch
      else init_output_tensors (zip pnnx_operators operators) g)"

section \<open>Graph builder: \<^verbatim>\<open>RuntimeGraph::Init\<close>\<close>

text \<open>
  \<open>make_RuntimeOperator\<close> is the node \<^verbatim>\<open>std::make_shared<RuntimeOperator>()\<close> constructs:
  empty strings and containers, null pointers, and a delivery counter of zero
  (Modelled from the spec: the member initialisers are in a header that is missing; the
  spec has the counter count the deliveries of the current pass).
\<close>

definition make_RuntimeOperator :: RuntimeOperator where
  "make_RuntimeOperator =
     \<lparr>op_name = [], op_type = [], layer = None, output_names = [], output_operands = None,
      input_operands = [], input_operands_seq = [], output_operators = [],
      params = [], attribute = [], meet_num = 0\<rparr>"

text \<open>\<^verbatim>\<open>RuntimeGraph::InitInputOperators\<close> (lines 352 to 375).\<close>

fun InitInputOperators :: "pnnx_Operand option list \<Rightarrow> ptr \<Rightarrow> RuntimeGraph \<Rightarrow> error + RuntimeGraph" where
  "InitInputOperators [] runtime_operator g = Inr g"
| "InitInputOperators (None # inputs) runtime_operator g =
     InitInputOperators inputs runtime_operator g"
| "InitInputOperators (Some input # inputs) runtime_operator g =
     (if pnnx_operand_type input = 1
      then (let r = free_operand g;
                runtime_operand = \<lparr>operand_name = pnnx_producer input,
                                   shapes = pnnx_shape input,
                                   datas = [],
                                   operand_type = kTypeFloat32\<rparr>;
                rop = op_heap g runtime_operator
            in InitInputOperators inputs runtime_operator
                 (g\<lparr>operand_heap := (operand_heap g)(r := runtime_operand),
                    free_operand := Suc r,
                    op_heap := (op_heap g)(runtime_operator :=
                      rop\<lparr>input_operands := map_insert (pnnx_producer input) r (input_operands rop),
                          input_operands_seq := input_operands_seq rop @ [r]\<rparr>)\<rparr>))
      else Inl UnknownInputOperandType)"

text \<open>\<^verbatim>\<open>RuntimeGraph::InitOutputOperators\<close> (lines 377 to 388).\<close>

fun InitOutputOperators :: "pnnx_Operand option list \<Rightarrow> RuntimeOperator \<Rightarrow> RuntimeOperator" where
  "InitOutputOperators [] rop = rop"
| "InitOutputOperators (None # outputs) rop = InitOutputOperators outputs rop"
| "InitOutputOperators (Some output # outputs) rop =
     InitOutputOperators outputs (rop\<lparr>output_names := output_names rop @ pnnx_consumers output\<rparr>)"

text \<open>
  \<^verbatim>\<open>RuntimeGraph::InitGraphParams\<close> (lines 390 to 455).  The codes of
  \<^verbatim>\<open>RuntimeParameterType\<close>, declared in a header that is missing, are the positions of the
  cases in the order the switch lists them, from zero.
\<close>

definition runtime_parameter :: "pnnx_Parameter \<Rightarrow> error + RuntimeParameter" where
  "runtime_parameter parameter =
     (let t = pnnx_param_type parameter in
      if t = 0 then Inr RuntimeParameterUnknown
      else if t = 1 then Inr (RuntimeParameterBool (pnnx_b parameter))
      else if t = 2 then Inr (RuntimeParameterInt (pnnx_i parameter))
      else if t = 3 then Inr (RuntimeParameterFloat (pnnx_f parameter))
      else if t = 4 then Inr (RuntimeParameterString (pnnx_s parameter))
      else if t = 5 then Inr (RuntimeParameterIntArray (pnnx_ai parameter))
      else if t = 6 then Inr (RuntimeParameterFloatArray (pnnx_af parameter))
      else if t = 7 then Inr (RuntimeParameterStringArray (pnnx_as parameter))
      else Inl UnknownParameterType)"

fun InitGraphParams :: "(string \<times> pnnx_Parameter) list \<Rightarrow> RuntimeOperator \<Rightarrow> error + RuntimeOperator" where
  "InitGraphParams [] rop = Inr rop"
| "InitGraphParams ((name, parameter) # rest) rop =
     (case runtime_parameter parameter of
        Inl e \<Rightarrow> Inl e
      | Inr rp \<Rightarrow>
          InitGraphParams rest (rop\<lparr>params := map_insert name rp (params rop)\<rparr>))"

text \<open>\<^verbatim>\<open>RuntimeGraph::InitGraphAttrs\<close> (lines 457 to 476).\<close>

fun InitGraphAttrs :: "(string \<times> pnnx_Attribute) list \<Rightarrow> RuntimeOperator \<Rightarrow> error + RuntimeOperator" where
  "InitGraphAttrs [] rop = Inr rop"
| "InitGraphAttrs ((name, attr) # rest) rop =
     (if pnnx_attr_type attr = 1
      then InitGraphAttrs rest
             (rop\<lparr>attribute := map_insert name
                     \<lparr>weight_data = pnnx_attr_data attr,
                      attr_shape = pnnx_attr_shape attr,
                      attr_type = kTypeFloat32\<rparr> (attribute rop)\<rparr>)
      else Inl UnknownAttributeType)"

text \<open>The loop that creates one node per descriptor (lines 155 to 190).\<close>

fun init_operators :: "pnnx_Operator option list \<Rightarrow> RuntimeGraph \<Rightarrow> error + RuntimeGraph" where
  "init_operators [] g = Inr g"
| "init_operators (None # ops) g = init_operators ops g"
| "init_operators (Some op # ops) g =
     (let p = free_op g;
          g1 = g\<lparr>op_heap := (op_heap g)(p :=
                    make_RuntimeOperator\<lparr>op_name := pnnx_name op, op_type := pnnx_type op\<rparr>),
                 free_op := Suc p\<rparr>
      in case (if pnnx_inputs op \<noteq> [] then InitInputOperators (pnnx_inputs op) p g1 else Inr g1) of
           Inl e \<Rightarrow> Inl e
         | Inr g2 \<Rightarrow>
            (case InitGraphAttrs (pnnx_attrs op) (InitOutputOperators (pnnx_outputs op) (op_heap g2 p)) of
               Inl e \<Rightarrow> Inl e
             | Inr rop \<Rightarrow>
                (case InitGraphParams (pnnx_params op) rop of
                   Inl e \<Rightarrow> Inl e
                 | Inr rop' \<Rightarrow>
                    init_operators ops
                      (g2\<lparr>op_heap := (op_heap g2)(p := rop'),
                          m_operators := m_operators g2 @ [p]\<rparr>))))"

text \<open>
  The two nested loops that build the adjacency (lines 193 to 203): \<open>link_next\<close> is the
  inner loop for one \<open>current_op\<close>, \<open>link_operators\<close> the outer one.
\<close>

fun link_next :: "ptr \<Rightarrow> ptr list \<Rightarrow> (ptr \<Rightarrow> RuntimeOperator) \<Rightarrow> (ptr \<Rightarrow> RuntimeOperator)" where
  "link_next current_op [] oh = oh"
| "link_next current_op (next_op # rest) oh =
     (if next_op = current_op then link_next current_op rest oh
      else if op_name (oh next_op) \<in> set (output_names (oh current_op))
      then link_next current_op rest
             (oh(current_op := (oh current_op)\<lparr>output_operators :=
                   map_insert (op_name (oh next_op)) next_op (output_operators (oh current_op))\<rparr>))
      else link_next current_op rest oh)"

fun link_operators :: "ptr list \<Rightarrow> ptr list \<Rightarrow> (ptr \<Rightarrow> RuntimeOperator) \<Rightarrow> (ptr \<Rightarrow> RuntimeOperator)" where
  "link_operators [] operators oh = oh"
| "link_operators (current_op # rest) operators oh =
     link_operators rest operators (link_next current_op operators oh)"

text \<open>
  \<open>load\<close> stands for \<^verbatim>\<open>pnnx::Graph::load\<close>: from the two paths it gives the result code
  and the operators of the graph it has read.  \<open>Init\<close> returns the boolean of the source
  and the graph as the call leaves it.
\<close>

type_synonym loader = "string \<Rightarrow> string \<Rightarrow> int \<times> pnnx_Operator option list"

definition Init :: "loader \<Rightarrow> RuntimeGraph \<Rightarrow> error + (bool \<times> RuntimeGraph)" where
  "Init load g =
     (if m_bin_path g = [] \<or> m_param_path g = [] then Inr (False, g)
      else (let load_result = fst (load (m_param_path g) (m_bin_path g));
                operators = snd (load (m_param_path g) (m_bin_path g));
                g1 = g\<lparr>m_graph := Some operators\<rparr>
            in if load_result \<noteq> 0 then Inr (False, g1)
               else if operators = [] then Inr (False, g1)
               else (case init_operators operators (g1\<lparr>m_operators := []\<rparr>) of
                       Inl e \<Rightarrow> Inl e
                     | Inr g2 \<Rightarrow>
                        Inr (True, g2\<lparr>op_heap := link_operators (m_operators g2) (m_operators g2) (op_heap g2),
                                      m_graph_state := NeedBuild\<rparr>))))"

section \<open>Layer binder and \<^verbatim>\<open>RuntimeGraph::Build\<close>\<close>

type_synonym create_layer = "RuntimeOperator \<Rightarrow> Layer option"

text \<open>The loop over the nodes (lines 221 to 233), with \<^verbatim>\<open>RuntimeGraph::CreateLayer\<close>.\<close>

fun bind_layers :: "create_layer \<Rightarrow> ptr list \<Rightarrow> RuntimeGraph \<Rightarrow> error + RuntimeGraph" where
  "bind_layers create [] g = Inr g"
| "bind_layers create (kOperator # rest) g =
     (let rop = op_heap g kOperator in
      if op_type rop = ''pnnx.Input''
      then bind_layers create rest
             (g\<lparr>m_input_operators_maps := map_insert (op_name rop) kOperator (m_input_operators_maps g)\<rparr>)
      else if op_type rop = ''pnnx.Output''
      then bind_layers create rest
             (g\<lparr>m_output_operators_maps := map_insert (op_name rop) kOperator (m_output_operators_maps g)\<rparr>)
      else (case create rop of
              None \<Rightarrow> Inl LayerCreateFailed
            | Some l \<Rightarrow>
               bind_layers create rest (g\<lparr>op_heap := (op_heap g)(kOperator := rop\<lparr>layer := Some l\<rparr>)\<rparr>)))"

definition Build :: "loader \<Rightarrow> create_layer \<Rightarrow> RuntimeGraph \<Rightarrow> string \<Rightarrow> string \<Rightarrow> error + RuntimeGraph" where
  "Build load create g input_name output_name =
     (case (if m_graph_state g = NeedInit
            then (case Init load g of
                    Inl e \<Rightarrow> Inl e
                  | Inr r \<Rightarrow> if fst r then Inr (snd r) else Inl InitGraphFailed)
            else Inr g) of
        Inl e \<Rightarrow> Inl e
      | Inr g1 \<Rightarrow>
         if \<not> GraphState_rank NeedBuild \<le> GraphState_rank (m_graph_state g1) then Inl GraphStatusError
         else if m_operators g1 = [] then Inl GraphOperatorsEmpty
         else (case bind_layers create (m_operators g1)
                      (g1\<lparr>m_input_operators_maps := [], m_output_operators_maps := []\<rparr>) of
                 Inl e \<Rightarrow> Inl e
               | Inr g2 \<Rightarrow>
                  (case InitOperatorInputTensor (m_operators g2) g2 of
                     Inl e \<Rightarrow> Inl e
                   | Inr g3 \<Rightarrow>
                      (case m_graph g3 of
                         None \<Rightarrow> Inl NullPointer
                       | Some ops \<Rightarrow>
                          (case InitOperatorOutputTensor ops (m_operators g3) g3 of
                             Inl e \<Rightarrow> Inl e
                           | Inr g4 \<Rightarrow>
                              Inr (g4\<lparr>m_graph_state := Complete,
                                      m_input_name := input_name,
                                      m_output_name := output_name\<rparr>))))))"

section \<open>Scheduler: \<^verbatim>\<open>RuntimeGraph::Forward\<close>\<close>

text \<open>
  A pass works on the graph and on the local work queue.  The state of a pass also keeps
  a trace, which the source does not have: an event is appended at the five places named
  below, with the values the node has at that place.  The trace is never read by the pass.
  \<^item> \<open>Deliver p c m n\<close>: line 505, the propagation from node \<open>p\<close> has counted its
    delivery to the consumer \<open>c\<close>; \<open>m\<close> is the \<^verbatim>\<open>meet_num\<close> of \<open>c\<close> after the line and
    \<open>n\<close> the size of its \<^verbatim>\<open>input_operands\<close>.
  \<^item> \<open>Enqueue c q m n\<close>: line 501, the consumer \<open>c\<close> is pushed; \<open>q\<close> tells whether \<open>c\<close>
    is in the queue just before the push, \<open>m\<close> is its \<^verbatim>\<open>meet_num\<close> and \<open>n\<close> the size of
    its \<^verbatim>\<open>input_operands\<close> at the push.
  \<^item> \<open>Check p m n\<close>: line 284, the readiness test of the dequeued node \<open>p\<close>, with its
    \<^verbatim>\<open>meet_num\<close> and the size of its \<^verbatim>\<open>input_operands\<close>.
  \<^item> \<open>Retry p\<close>: line 286, the node \<open>p\<close> is pushed back because it is not ready.
  \<^item> \<open>Invoke p m n\<close>: line 305, the layer of \<open>p\<close> has been called, with the \<^verbatim>\<open>meet_num\<close>
    of \<open>p\<close> and the size of its \<^verbatim>\<open>input_operands\<close> at the call.
\<close>

datatype event =
    Deliver ptr ptr nat nat
  | Enqueue ptr bool nat nat
  | Check ptr nat nat
  | Retry ptr
  | Invoke ptr nat nat

record run_state =
  graph :: RuntimeGraph
  operator_queue :: "ptr list"
  trace :: "event list"

text \<open>A process that ends at a fatal site is the error with the state it has reached.\<close>

type_synonym 'a outcome = "(error \<times> run_state) + 'a"

text \<open>\<^verbatim>\<open>RuntimeGraph::CheckOperatorReady\<close> (lines 478 to 486).\<close>

definition CheckOperatorReady :: "RuntimeOperator \<Rightarrow> error + bool" where
  "CheckOperatorReady op =
     (if \<not> meet_num op \<le> length (input_operands op) then Inl MeetNumExceeded
      else if meet_num op = length (input_operands op) then Inr True
      else Inr False)"

text \<open>\<^verbatim>\<open>RuntimeGraph::SetOpInputData\<close> (lines 344 to 350); it returns the buffers of \<open>dest\<close>.\<close>

definition SetOpInputData :: "Tensor list \<Rightarrow> Tensor list \<Rightarrow> error + Tensor list" where
  "SetOpInputData src dest =
     (if length src \<noteq> length dest then Inl DataSizeMismatch
      else Inr (map (\<lambda>(d, s). set_data d s) (zip dest src)))"

definition set_datas :: "ptr \<Rightarrow> Tensor list \<Rightarrow> RuntimeGraph \<Rightarrow> RuntimeGraph" where
  "set_datas r ts g = g\<lparr>operand_heap := (operand_heap g)(r := (operand_heap g r)\<lparr>datas := ts\<rparr>)\<rparr>"

definition set_meet_num :: "ptr \<Rightarrow> nat \<Rightarrow> RuntimeGraph \<Rightarrow> RuntimeGraph" where
  "set_meet_num p n g = g\<lparr>op_heap := (op_heap g)(p := (op_heap g p)\<lparr>meet_num := n\<rparr>)\<rparr>"

text \<open>Lines 499 and 505, \<^verbatim>\<open>meet_num += 1\<close>, and line 503, \<^verbatim>\<open>meet_num -= 1\<close>.\<close>

definition inc_meet_num :: "ptr \<Rightarrow> run_state \<Rightarrow> run_state" where
  "inc_meet_num p s = s\<lparr>graph := set_meet_num p (meet_num (op_heap (graph s) p) + 1) (graph s)\<rparr>"

definition dec_meet_num :: "ptr \<Rightarrow> run_state \<Rightarrow> run_state" where
  "dec_meet_num p s = s\<lparr>graph := set_meet_num p (meet_num (op_heap (graph s) p) - 1) (graph s)\<rparr>"

definition log_event :: "event \<Rightarrow> run_state \<Rightarrow> run_state" where
  "log_event e s = s\<lparr>trace := trace s @ [e]\<rparr>"

definition push_back :: "ptr \<Rightarrow> run_state \<Rightarrow> run_state" where
  "push_back p s = s\<lparr>operator_queue := operator_queue s @ [p]\<rparr>"

text \<open>Line 501 with its event, and line 505 with its event.\<close>

definition enqueue :: "ptr \<Rightarrow> run_state \<Rightarrow> run_state" where
  "enqueue p s =
     push_back p
       (log_event (Enqueue p (p \<in> set (operator_queue s))
                     (meet_num (op_heap (graph s) p))
                     (length (input_operands (op_heap (graph s) p)))) s)"

definition count_delivery :: "ptr \<Rightarrow> ptr \<Rightarrow> run_state \<Rightarrow> run_state" where
  "count_delivery current_op p s =
     (let s' = inc_meet_num p s
      in log_event (Deliver current_op p
                      (meet_num (op_heap (graph s') p))
                      (length (input_operands (op_heap (graph s') p)))) s')"

text \<open>
  The body of the loop of \<^verbatim>\<open>RuntimeGraph::ProbeNextLayer\<close> (lines 493 to 506) for the
  consumer \<open>next_rt_operator\<close>, one value of the map \<^verbatim>\<open>output_operators\<close> of \<open>current_op\<close>.
\<close>

definition probe_next :: "ptr \<Rightarrow> Tensor list \<Rightarrow> ptr \<Rightarrow> run_state \<Rightarrow> run_state outcome" where
  "probe_next current_op layer_output_datas next_rt_operator s =
     (let next_input_operands = input_operands (op_heap (graph s) next_rt_operator) in
      case map_of next_input_operands (op_name (op_heap (graph s) current_op)) of
        None \<Rightarrow> Inr s
      | Some r \<Rightarrow>
         (case SetOpInputData layer_output_datas (datas (operand_heap (graph s) r)) of
            Inl e \<Rightarrow> Inl (e, s)
          | Inr ds \<Rightarrow>
             (let s1 = s\<lparr>graph := set_datas r ds (graph s)\<rparr> in
              if next_rt_operator \<notin> set (operator_queue s1)
              then (let s2 = inc_meet_num next_rt_operator s1 in
                    case CheckOperatorReady (op_heap (graph s2) next_rt_operator) of
                      Inl e \<Rightarrow> Inl (e, s2)
                    | Inr ready \<Rightarrow>
                       (let s3 = (if ready then enqueue next_rt_operator s2 else s2);
                            s4 = dec_meet_num next_rt_operator s3
                        in Inr (count_delivery current_op next_rt_operator s4)))
              else Inr (count_delivery current_op next_rt_operator s1))))"

fun probe_all :: "ptr \<Rightarrow> Tensor list \<Rightarrow> ptr list \<Rightarrow> run_state \<Rightarrow> run_state outcome" where
  "probe_all current_op layer_output_datas [] s = Inr s"
| "probe_all current_op layer_output_datas (next_rt_operator # rest) s =
     (case probe_next current_op layer_output_datas next_rt_operator s of
        Inl x \<Rightarrow> Inl x
      | Inr s' \<Rightarrow> probe_all current_op layer_output_datas rest s')"

definition ProbeNextLayer :: "ptr \<Rightarrow> Tensor list \<Rightarrow> run_state \<Rightarrow> run_state outcome" where
  "ProbeNextLayer current_op layer_output_datas s =
     probe_all current_op layer_output_datas
       (map snd (output_operators (op_heap (graph s) current_op))) s"

text \<open>
  The body of the \<^verbatim>\<open>while\<close> loop (lines 268 to 321) on a queue that is not empty:
  \<open>Next\<close> goes round the loop again, \<open>Stop\<close> is the \<^verbatim>\<open>break\<close>, \<open>Fatal\<close> ends the process.
  The layer reads the buffers gathered from \<^verbatim>\<open>input_operands_seq\<close> and writes the buffers
  of the output operand in place.
\<close>

datatype flow = Next run_state | Stop run_state | Fatal error run_state

definition gather_input_datas :: "RuntimeGraph \<Rightarrow> ptr list \<Rightarrow> Tensor list" where
  "gather_input_datas g input_operand_datas =
     concat (map (\<lambda>input_operand_data. datas (operand_heap g input_operand_data)) input_operand_datas)"

definition run_layer :: "layer_forward \<Rightarrow> ptr \<Rightarrow> run_state \<Rightarrow> flow" where
  "run_layer lf current_op s =
     (let rop = op_heap (graph s) current_op;
          layer_input_datas = gather_input_datas (graph s) (input_operands_seq rop)
      in if layer_input_datas = [] then Fatal LayerInputEmpty s
         else (case output_operands rop of
                 None \<Rightarrow> Fatal OutputOperandNull s
               | Some out \<Rightarrow>
                  (case layer rop of
                     None \<Rightarrow> Fatal NullLayer s
                   | Some l \<Rightarrow>
                      (let status = fst (lf l layer_input_datas (datas (operand_heap (graph s) out)));
                           layer_output_datas = snd (lf l layer_input_datas (datas (operand_heap (graph s) out)));
                           s1 = log_event (Invoke current_op (meet_num rop) (length (input_operands rop)))
                                  (s\<lparr>graph := set_datas out layer_output_datas (graph s)\<rparr>)
                       in if status \<noteq> kInferSuccess then Fatal LayerForwardFailed s1
                          else (case ProbeNextLayer current_op layer_output_datas s1 of
                                  Inl x \<Rightarrow> Fatal (fst x) (snd x)
                                | Inr s2 \<Rightarrow> Next s2)))))"

definition forward_body :: "layer_forward \<Rightarrow> Tensor list \<Rightarrow> ptr \<Rightarrow> ptr \<Rightarrow> run_state \<Rightarrow> flow" where
  "forward_body lf inputs input_op output_op s =
     (case operator_queue s of
        [] \<Rightarrow> Stop s
      | current_op # rest \<Rightarrow>
         (let s1 = s\<lparr>operator_queue := rest\<rparr> in
          if current_op = output_op then Stop s1
          else if current_op = input_op
          then (case ProbeNextLayer current_op inputs s1 of
                  Inl x \<Rightarrow> Fatal (fst x) (snd x)
                | Inr s2 \<Rightarrow> Next s2)
          else (let rop = op_heap (graph s1) current_op;
                    s2 = log_event (Check current_op (meet_num rop) (length (input_operands rop))) s1
                in case CheckOperatorReady rop of
                     Inl e \<Rightarrow> Fatal e s2
                   | Inr has_ready \<Rightarrow>
                      if \<not> has_ready
                      then Next (log_event (Retry current_op) (push_back current_op s2))
                      else run_layer lf current_op s2)))"

text \<open>
  The \<^verbatim>\<open>while\<close> loop.  The first argument bounds the number of iterations: \<open>None\<close> is a
  loop that has not left within the bound.
\<close>

fun forward_loop :: "nat \<Rightarrow> layer_forward \<Rightarrow> Tensor list \<Rightarrow> ptr \<Rightarrow> ptr \<Rightarrow> run_state
    \<Rightarrow> run_state outcome option" where
  "forward_loop 0 lf inputs input_op output_op s =
     (if operator_queue s = [] then Some (Inr s) else None)"
| "forward_loop (Suc n) lf inputs input_op output_op s =
     (if operator_queue s = [] then Some (Inr s)
      else (case forward_body lf inputs input_op output_op s of
              Next s' \<Rightarrow> forward_loop n lf inputs input_op output_op s'
            | Stop s' \<Rightarrow> Some (Inr s')
            | Fatal e s' \<Rightarrow> Some (Inl (e, s'))))"

text \<open>The reset of the counters (lines 324 to 326).\<close>

fun reset_meet_num :: "ptr list \<Rightarrow> (ptr \<Rightarrow> RuntimeOperator) \<Rightarrow> (ptr \<Rightarrow> RuntimeOperator)" where
  "reset_meet_num [] oh = oh"
| "reset_meet_num (op # ops) oh = reset_meet_num ops (oh(op := (oh op)\<lparr>meet_num := 0\<rparr>))"

text \<open>
  \<open>Forward\<close> returns the buffers of the operand it returns, with the state the pass has
  left.  The flag \<open>debug\<close> switches log lines and timing only.
\<close>

definition Forward :: "nat \<Rightarrow> layer_forward \<Rightarrow> RuntimeGraph \<Rightarrow> Tensor list \<Rightarrow> bool
    \<Rightarrow> (Tensor list \<times> run_state) outcome option" where
  "Forward fuel lf g inputs debug =
     (let s0 = \<lparr>graph = g, operator_queue = [], trace = []\<rparr> in
      if GraphState_rank (m_graph_state g) < GraphState_rank Complete then Some (Inl (GraphNeedBuild, s0))
      else if m_graph_state g \<noteq> Complete then Some (Inl (GraphStatusError, s0))
      else (case map_of (m_input_operators_maps g) (m_input_name g) of
              None \<Rightarrow> Some (Inl (InputNodeNotFound, s0))
            | Some input_op \<Rightarrow>
               (case map_of (m_output_operators_maps g) (m_output_name g) of
                  None \<Rightarrow> Some (Inl (OutputNodeNotFound, s0))
                | Some output_op \<Rightarrow>
                   (case forward_loop fuel lf inputs input_op output_op (push_back input_op s0) of
                      None \<Rightarrow> None
                    | Some (Inl x) \<Rightarrow> Some (Inl x)
                    | Some (Inr s) \<Rightarrow>
                       (let s' = s\<lparr>graph := (graph s)\<lparr>op_heap :=
                                   reset_meet_num (m_operators (graph s)) (op_heap (graph s))\<rparr>\<rparr>;
                            output_operands_map = input_operands (op_heap (graph s') output_op)
                        in if length output_operands_map \<noteq> 1
                           then Some (Inl (MultiplePathsToOutput, s'))
                           else (case output_operands_map of
                                   [] \<Rightarrow> Some (Inl (MultiplePathsToOutput, s'))
                                 | output_op_input_operand # _ \<Rightarrow>
                                    Some (Inr (datas (operand_heap (graph s') (snd output_op_input_operand)), s'))))))))"

section \<open>Reading a pass\<close>

text \<open>The nodes of the events of each kind, in the order of the trace.\<close>

fun invoked :: "event list \<Rightarrow> ptr list" where
  "invoked [] = []"
| "invoked (Invoke p m n # es) = p # invoked es"
| "invoked (e # es) = invoked es"

fun enqueued :: "event list \<Rightarrow> ptr list" where
  "enqueued [] = []"
| "enqueued (Enqueue p q m n # es) = p # enqueued es"
| "enqueued (e # es) = enqueued es"

fun retried :: "event list \<Rightarrow> ptr list" where
  "retried [] = []"
| "retried (Retry p # es) = p # retried es"
| "retried (e # es) = retried es"

text \<open>The state a call of \<open>Forward\<close> has left, whether it has returned or not.\<close>

definition final_state :: "(Tensor list \<times> run_state) outcome \<Rightarrow> run_state" where
  "final_state r = (case r of Inl x \<Rightarrow> snd x | Inr y \<Rightarrow> snd y)"

text \<open>
  The number of distinct producers of a node is the size of its \<^verbatim>\<open>input_operands\<close>; its
  delivery counter is its \<^verbatim>\<open>meet_num\<close>.
\<close>

definition producers :: "RuntimeGraph \<Rightarrow> ptr \<Rightarrow> nat" where
  "producers g p = length (input_operands (op_heap g p))"

definition counter :: "RuntimeGraph \<Rightarrow> ptr \<Rightarrow> nat" where
  "counter g p = meet_num (op_heap g p)"

text \<open>
  The net effect of one delivery, in the words of the spec: the buffers \<open>ts\<close> are in the
  operand \<open>r\<close> of the consumer \<open>c\<close>, the counter of \<open>c\<close> is one higher, and \<open>c\<close> is
  pushed when it is not in the queue and the new counter equals its number of producers.
  \<open>probe_next\<close> is compared with it below.
\<close>

definition net_delivery :: "ptr \<Rightarrow> ptr \<Rightarrow> ptr \<Rightarrow> Tensor list \<Rightarrow> run_state \<Rightarrow> run_state" where
  "net_delivery p c r ts s =
     (let m = counter (graph s) c + 1;
          n = producers (graph s) c;
          ready = (c \<notin> set (operator_queue s) \<and> m = n)
      in \<lparr>graph = set_meet_num c m (set_datas r ts (graph s)),
          operator_queue = (if ready then operator_queue s @ [c] else operator_queue s),
          trace = trace s @ (if ready then [Enqueue c False m n] else []) @ [Deliver p c m n]\<rparr>)"

text \<open>
  Two graphs with the same nodes: the same vector of nodes, and every node the same but
  for its delivery counter.
\<close>

definition same_nodes :: "RuntimeGraph \<Rightarrow> RuntimeGraph \<Rightarrow> bool" where
  "same_nodes g g' \<longleftrightarrow>
     m_operators g' = m_operators g
     \<and> (\<forall>p. (op_heap g' p)\<lparr>meet_num := 0\<rparr> = (op_heap g p)\<lparr>meet_num := 0\<rparr>)"

text \<open>
  The words of the spec on buffers: a buffer fits a declared shape of rank 4 when its
  dimensions are the channels, height and width of the shape, and a shape of rank 2 when
  it is \<open>1 \<times> features \<times> 1\<close>; \<open>declared_buffer\<close> is the fresh buffer of a declared shape.
\<close>

definition buffer_fits :: "i32 list \<Rightarrow> Tensor \<Rightarrow> bool" where
  "buffer_fits shp t =
     (if length shp = 4
      then channels t = shp ! 1 \<and> rows t = shp ! 2 \<and> cols t = shp ! 3
      else channels t = 1 \<and> rows t = shp ! 1 \<and> cols t = 1)"

definition declared_buffer :: "i32 list \<Rightarrow> Tensor" where
  "declared_buffer shp =
     (if length shp = 4 then Tensor_new (shp ! 1) (shp ! 2) (shp ! 3) else Tensor_new 1 (shp ! 1) 1)"

section \<open>Invariants of a pass\<close>

text \<open>
  What every event of a pass satisfies, for the graph \<open>g\<close> and the whole trace \<open>es\<close>:
  a delivery records the number of producers of the consumer, and a delivery that has
  brought the counter to that number or beyond has its consumer among the pushed nodes;
  a node is pushed when it is not in the queue and its counter equals its number of
  producers; a dequeued node is at least ready; no node is pushed back; a layer is called
  on a counter that equals the number of producers.
\<close>

fun event_ok :: "RuntimeGraph \<Rightarrow> event list \<Rightarrow> event \<Rightarrow> bool" where
  "event_ok g es (Deliver p c m n) = (n = producers g c \<and> (n \<le> m \<longrightarrow> c \<in> set (enqueued es)))"
| "event_ok g es (Enqueue c q m n) = (\<not> q \<and> m = n \<and> n = producers g c)"
| "event_ok g es (Check p m n) = (n = producers g p \<and> n \<le> m)"
| "event_ok g es (Retry p) = False"
| "event_ok g es (Invoke p m n) = (m = n \<and> n = producers g p)"

definition trace_ok :: "RuntimeGraph \<Rightarrow> event list \<Rightarrow> bool" where
  "trace_ok g es \<longleftrightarrow> list_all (event_ok g es) es \<and> distinct (invoked es) \<and> distinct (enqueued es)"

text \<open>
  The invariant of the loop after the front of the queue is popped: the queue holds
  pushed nodes only, each once; a pushed node and a node whose layer has run have a
  counter that is at least the number of producers, and the latter is not in the queue.
  At the head of the loop the state is the first one, or the invariant holds.
\<close>

definition pass_inv :: "run_state \<Rightarrow> bool" where
  "pass_inv s \<longleftrightarrow>
     distinct (operator_queue s)
     \<and> set (operator_queue s) \<subseteq> set (enqueued (trace s))
     \<and> distinct (enqueued (trace s))
     \<and> (\<forall>c \<in> set (enqueued (trace s)). producers (graph s) c \<le> counter (graph s) c)
     \<and> distinct (invoked (trace s))
     \<and> (\<forall>p \<in> set (invoked (trace s)).
           p \<notin> set (operator_queue s) \<and> producers (graph s) p \<le> counter (graph s) p)
     \<and> list_all (event_ok (graph s) (trace s)) (trace s)"

definition head_inv :: "ptr \<Rightarrow> run_state \<Rightarrow> bool" where
  "head_inv input_op s \<longleftrightarrow> (operator_queue s = [input_op] \<and> trace s = []) \<or> pass_inv s"

text \<open>
  A well-formed built graph: the names of the nodes are distinct, as \<^verbatim>\<open>pnnx\<close> gives them;
  every counter is zero, as after \<open>Init\<close> and after every call of \<open>Forward\<close> that
  returns; the consumer edges of a node lead to nodes of the graph and to no node twice,
  as lines 193 to 203 build them; and the designated input node is a node of the graph
  without input operands.
\<close>

definition wf_graph :: "RuntimeGraph \<Rightarrow> bool" where
  "wf_graph g \<longleftrightarrow>
     distinct (map (\<lambda>p. op_name (op_heap g p)) (m_operators g))
     \<and> list_all (\<lambda>p. meet_num (op_heap g p) = 0
                   \<and> distinct (map snd (output_operators (op_heap g p)))
                   \<and> list_all (\<lambda>c. c \<in> set (m_operators g)) (map snd (output_operators (op_heap g p))))
         (m_operators g)
     \<and> (case map_of (m_input_operators_maps g) (m_input_name g) of
          None \<Rightarrow> True
        | Some input_op \<Rightarrow> input_op \<in> set (m_operators g) \<and> input_operands (op_heap g input_op) = [])"

text \<open>
  The deliveries of a trace, as pairs of producer and consumer, and the events whose
  dequeued node has a counter within its number of producers.
\<close>

fun deliveries :: "event list \<Rightarrow> (ptr \<times> ptr) list" where
  "deliveries [] = []"
| "deliveries (Deliver p c m n # es) = (p, c) # deliveries es"
| "deliveries (e # es) = deliveries es"

fun check_le :: "event \<Rightarrow> bool" where
  "check_le (Check p m n) = (m \<le> n)"
| "check_le e = True"

text \<open>
  The invariant of a pass over a well-formed graph \<open>g\<close>, after the front of the queue is
  popped: the queue holds nodes of the graph and not the input node, and the pushed nodes
  are nodes of the graph; no producer has
  delivered twice to one consumer; every producer of a delivery is a node the consumer
  knows by name and is the input node or a node whose layer has run; and the counter of a
  node is the number of deliveries to it.
\<close>

definition wf_inv :: "RuntimeGraph \<Rightarrow> ptr \<Rightarrow> run_state \<Rightarrow> bool" where
  "wf_inv g input_op s \<longleftrightarrow>
     same_nodes g (graph s)
     \<and> set (operator_queue s) \<subseteq> set (m_operators g)
     \<and> set (enqueued (trace s)) \<subseteq> set (m_operators g)
     \<and> input_op \<notin> set (operator_queue s)
     \<and> distinct (deliveries (trace s))
     \<and> (\<forall>d \<in> set (deliveries (trace s)).
           fst d \<in> set (m_operators g)
           \<and> op_name (op_heap g (fst d)) \<in> fst ` set (input_operands (op_heap g (snd d)))
           \<and> (fst d = input_op \<or> fst d \<in> set (invoked (trace s))))
     \<and> (\<forall>c \<in> set (m_operators g).
           counter (graph s) c = length (filter (\<lambda>d. snd d = c) (deliveries (trace s))))
     \<and> list_all check_le (trace s)"

definition wf_head :: "RuntimeGraph \<Rightarrow> ptr \<Rightarrow> run_state \<Rightarrow> bool" where
  "wf_head g input_op s \<longleftrightarrow>
     (operator_queue s = [input_op] \<and> trace s = [] \<and> graph s = g)
     \<or> (pass_inv s \<and> wf_inv g input_op s)"

text \<open>The state of an outcome and of a flow, and the reset of lines 324 to 326 on a state.\<close>

definition outcome_state :: "run_state outcome \<Rightarrow> run_state" where
  "outcome_state r = (case r of Inl x \<Rightarrow> snd x | Inr s \<Rightarrow> s)"

definition flow_state :: "flow \<Rightarrow> run_state" where
  "flow_state f = (case f of Next s \<Rightarrow> s | Stop s \<Rightarrow> s | Fatal e s \<Rightarrow> s)"

definition reset_counters :: "run_state \<Rightarrow> run_state" where
  "reset_counters s =
     s\<lparr>graph := (graph s)\<lparr>op_heap := reset_meet_num (m_operators (graph s)) (op_heap (graph s))\<rparr>\<rparr>"

text \<open>
  Two graphs with the same nodes and edges: the same vector of nodes and, for every
  node, the same name, type, consumer names, input operands and consumer edges.
\<close>

definition same_wiring :: "RuntimeGraph \<Rightarrow> RuntimeGraph \<Rightarrow> bool" where
  "same_wiring g g' \<longleftrightarrow>
     m_operators g' = m_operators g
     \<and> (\<forall>p. op_name (op_heap g' p) = op_name (op_heap g p)
            \<and> op_type (op_heap g' p) = op_type (op_heap g p)
            \<and> output_names (op_heap g' p) = output_names (op_heap g p)
            \<and> input_operands (op_heap g' p) = input_operands (op_heap g p)
            \<and> input_operands_seq (op_heap g' p) = input_operands_seq (op_heap g p)
            \<and> output_operators (op_heap g' p) = output_operators (op_heap g p))"


text \<open>
  A node as the loop of lines 221 to 233 leaves it: a sentinel as it was, any other node
  with the layer \<^verbatim>\<open>CreateLayer\<close> gives for it (line 231), once for each time the node occurs
  in \<^verbatim>\<open>operators_\<close>.
\<close>

definition rebound :: "create_layer \<Rightarrow> RuntimeGraph \<Rightarrow> ptr \<Rightarrow> RuntimeOperator" where
  "rebound create g p =
     (if op_type (op_heap g p) = ''pnnx.Input'' \<or> op_type (op_heap g p) = ''pnnx.Output''
      then op_heap g p
      else ((\<lambda>rop. rop\<lparr>layer := create rop\<rparr>) ^^ count_list (m_operators g) p) (op_heap g p))"

text \<open>
  An operand after the shape passes against the operand before: the same but for its
  buffers, and its buffers are the same unless it had none and has now one fresh buffer
  of its declared shape per batch element.
\<close>

definition operand_kept :: "RuntimeOperand \<Rightarrow> RuntimeOperand \<Rightarrow> bool" where
  "operand_kept od od' \<longleftrightarrow>
     od' = od\<lparr>datas := datas od'\<rparr>
     \<and> (datas od' = datas od
        \<or> (datas od = []
           \<and> datas od' = replicate (nat (sint (shapes od ! 0))) (declared_buffer (shapes od))))"

text \<open>
  The output operands of the nodes of two graphs: the later graph has no operand less, a
  node that had an output operand has the same one, and an output operand that a node has
  got is a new one.
\<close>

definition output_operands_kept :: "RuntimeGraph \<Rightarrow> RuntimeGraph \<Rightarrow> bool" where
  "output_operands_kept g g' \<longleftrightarrow>
     free_operand g \<le> free_operand g'
     \<and> (\<forall>p x. output_operands (op_heap g p) = Some x \<longrightarrow> output_operands (op_heap g' p) = Some x)
     \<and> (\<forall>p x. output_operands (op_heap g p) = None \<longrightarrow> output_operands (op_heap g' p) = Some x
            \<longrightarrow> free_operand g \<le> x)"

section \<open>Example graphs\<close>

text \<open>
  Descriptors as \<^verbatim>\<open>pnnx\<close> gives them: every operand of type code 1 unless said otherwise,
  no parameters and no attributes.  The example layer copies its inputs into its output
  buffers, one by one.
\<close>

definition ex_operand :: "string \<Rightarrow> string list \<Rightarrow> i32 list \<Rightarrow> string \<Rightarrow> pnnx_Operand" where
  "ex_operand producer consumers shp name =
     \<lparr>pnnx_producer = producer, pnnx_consumers = consumers, pnnx_operand_type = 1,
      pnnx_shape = shp, pnnx_operand_name = name\<rparr>"

definition ex_operator :: "string \<Rightarrow> string \<Rightarrow> pnnx_Operand list \<Rightarrow> pnnx_Operand list
    \<Rightarrow> pnnx_Operator option" where
  "ex_operator name type ins outs =
     Some \<lparr>pnnx_inputs = map Some ins, pnnx_outputs = map Some outs, pnnx_type = type,
           pnnx_name = name, pnnx_params = [], pnnx_attrs = []\<rparr>"

definition ex_new_graph :: RuntimeGraph where
  "ex_new_graph =
     \<lparr>m_graph_state = NeedInit, m_input_name = [], m_output_name = [],
      m_param_path = ''model.param'', m_bin_path = ''model.bin'',
      m_graph = None, m_operators = [], m_input_operators_maps = [], m_output_operators_maps = [],
      op_heap = (\<lambda>p. make_RuntimeOperator),
      operand_heap = (\<lambda>r. \<lparr>operand_name = [], shapes = [], datas = [], operand_type = kTypeUnknown\<rparr>),
      free_op = 0, free_operand = 0\<rparr>"

definition ex_create :: create_layer where
  "ex_create rop = Some 0"

definition ex_forward :: layer_forward where
  "ex_forward l ins outs = (kInferSuccess, map (\<lambda>(d, s). set_data d s) (zip outs ins))"

definition ex_build :: "pnnx_Operator option list \<Rightarrow> string \<Rightarrow> string \<Rightarrow> RuntimeGraph" where
  "ex_build ops input_name output_name =
     (case Build (\<lambda>param bin. (0, ops)) ex_create ex_new_graph input_name output_name of
        Inl e \<Rightarrow> ex_new_graph
      | Inr g \<Rightarrow> g)"

definition ex_inputs :: "Tensor list" where
  "ex_inputs = [\<lparr>channels = 1, rows = 3, cols = 1, elems = [1, 2, 3]\<rparr>]"

text \<open>
  The diamond of the spec, with shape \<open>[1, 3]\<close>: nodes 0 to 4 are \<open>in\<close>, \<open>a\<close>, \<open>b\<close>, \<open>c\<close>
  and \<open>out\<close>, with edges \<open>in \<rightarrow> a\<close>, \<open>in \<rightarrow> b\<close>, \<open>a \<rightarrow> c\<close>, \<open>b \<rightarrow> c\<close> and \<open>c \<rightarrow> out\<close>.
\<close>

definition ex_diamond :: "pnnx_Operator option list" where
  "ex_diamond =
     (let o0 = ex_operand ''in'' [''a'', ''b''] [1, 3] ''0'';
          o1 = ex_operand ''a'' [''c''] [1, 3] ''1'';
          o2 = ex_operand ''b'' [''c''] [1, 3] ''2'';
          o3 = ex_operand ''c'' [''out''] [1, 3] ''3''
      in [ex_operator ''in'' ''pnnx.Input'' [] [o0],
          ex_operator ''a'' ''nn.ReLU'' [o0] [o1],
          ex_operator ''b'' ''nn.Sigmoid'' [o0] [o2],
          ex_operator ''c'' ''pnnx.Expression'' [o1, o2] [o3],
          ex_operator ''out'' ''pnnx.Output'' [o3] []])"

definition ex_diamond_graph :: RuntimeGraph where
  "ex_diamond_graph = ex_build ex_diamond ''in'' ''out''"

text \<open>
  A graph with a constant: nodes 0 to 3 are \<open>in\<close>, \<open>w\<close> (a \<^verbatim>\<open>pnnx.Attribute\<close>, which has
  no input), \<open>c\<close> and \<open>out\<close>, with edges \<open>in \<rightarrow> c\<close>, \<open>in \<rightarrow> out\<close> and \<open>w \<rightarrow> c\<close>.  No pass
  reaches \<open>w\<close>.
\<close>

definition ex_constant :: "pnnx_Operator option list" where
  "ex_constant =
     (let o0 = ex_operand ''in'' [''c'', ''out''] [1, 3] ''0'';
          o1 = ex_operand ''w'' [''c''] [1, 3] ''1'';
          o2 = ex_operand ''c'' [] [1, 3] ''2''
      in [ex_operator ''in'' ''pnnx.Input'' [] [o0],
          ex_operator ''w'' ''pnnx.Attribute'' [] [o1],
          ex_operator ''c'' ''pnnx.Expression'' [o0, o1] [o2],
          ex_operator ''out'' ''pnnx.Output'' [o0] []])"

definition ex_constant_graph :: RuntimeGraph where
  "ex_constant_graph = ex_build ex_constant ''in'' ''out''"

text \<open>
  A graph of rank 4: nodes 0 to 2 are \<open>in\<close>, \<open>a\<close> and \<open>out\<close>, with edges \<open>in \<rightarrow> a\<close> and
  \<open>in \<rightarrow> out\<close>.  The output operand of \<open>a\<close> has no consumer and the type code 2.
\<close>

definition ex_unused_output :: pnnx_Operand where
  "ex_unused_output = (ex_operand ''a'' [] [1, 1, 2, 2] ''1'')\<lparr>pnnx_operand_type := 2\<rparr>"

definition ex_rank4 :: "pnnx_Operator option list" where
  "ex_rank4 =
     (let o0 = ex_operand ''in'' [''a'', ''out''] [1, 1, 2, 2] ''0''
      in [ex_operator ''in'' ''pnnx.Input'' [] [o0],
          ex_operator ''a'' ''nn.ReLU'' [o0] [ex_unused_output],
          ex_operator ''out'' ''pnnx.Output'' [o0] []])"

definition ex_rank4_graph :: RuntimeGraph where
  "ex_rank4_graph = ex_build ex_rank4 ''in'' ''out''"


text \<open>
  A graph with a stray edge: nodes 0 to 2 are \<open>in\<close>, \<open>x\<close> and \<open>out\<close>.  The output operand
  of \<open>in\<close> names \<open>out\<close> and \<open>x\<close> as consumers, and \<open>x\<close> has no input: the edge \<open>in \<rightarrow> x\<close>
  exists and \<open>x\<close> does not know \<open>in\<close>.
\<close>

definition ex_stray :: "pnnx_Operator option list" where
  "ex_stray =
     (let o0 = ex_operand ''in'' [''out'', ''x''] [1, 3] ''0'';
          o1 = ex_operand ''x'' [] [1, 3] ''1''
      in [ex_operator ''in'' ''pnnx.Input'' [] [o0],
          ex_operator ''x'' ''nn.ReLU'' [] [o1],
          ex_operator ''out'' ''pnnx.Output'' [o0] []])"

definition ex_stray_graph :: RuntimeGraph where
  "ex_stray_graph = ex_build ex_stray ''in'' ''out''"

text \<open>
  A graph with a node that reads one producer twice: nodes 0 to 3 are \<open>in\<close>, \<open>a\<close>, \<open>c\<close>
  and \<open>out\<close>, with edges \<open>in \<rightarrow> a\<close>, \<open>a \<rightarrow> c\<close> and \<open>c \<rightarrow> out\<close>; both inputs of \<open>c\<close> are
  the output of \<open>a\<close>.
\<close>

definition ex_square :: "pnnx_Operator option list" where
  "ex_square =
     (let o0 = ex_operand ''in'' [''a''] [1, 3] ''0'';
          o1 = ex_operand ''a'' [''c'', ''c''] [1, 3] ''1'';
          o2 = ex_operand ''c'' [''out''] [1, 3] ''2''
      in [ex_operator ''in'' ''pnnx.Input'' [] [o0],
          ex_operator ''a'' ''nn.ReLU'' [o0] [o1],
          ex_operator ''c'' ''pnnx.Expression'' [o1, o1] [o2],
          ex_operator ''out'' ''pnnx.Output'' [o2] []])"

definition ex_square_graph :: RuntimeGraph where
  "ex_square_graph = ex_build ex_square ''in'' ''out''"

text \<open>A pass over \<open>g\<close> just before its loop, with the nodes \<open>q\<close> in the queue.\<close>

definition ex_state :: "RuntimeGraph \<Rightarrow> ptr list \<Rightarrow> run_state" where
  "ex_state g q = \<lparr>graph = g, operator_queue = q, trace = []\<rparr>"

section \<open>Shape resolution: properties\<close>

lemma check_input_buffer_fits:
  assumes "length shp = 2 \<or> length shp = 4"
  shows "check_input_buffer shp t = (if buffer_fits shp t then Inr () else Inl BufferShapeMismatch)"
  using assms
  by (auto simp: check_input_buffer_def buffer_fits_def Tensor_shapes_def CHECK_def and_also_def
      Let_def at_equal_def at_is_def vector_at_def)

lemma check_input_buffers_fit:
  assumes "length shp = 2 \<or> length shp = 4"
  shows "check_input_buffers shp ts =
     (if list_all (buffer_fits shp) ts then Inr () else Inl BufferShapeMismatch)"
  using assms by (induction ts) (auto simp: check_input_buffer_fits)

lemma make_buffer_declared:
  assumes "length shp = 2 \<or> length shp = 4"
  shows "make_buffer shp = Inr (declared_buffer shp)"
  using assms by (auto simp: make_buffer_def declared_buffer_def vector_at_def)

lemma make_buffers_declared:
  assumes "length shp = 2 \<or> length shp = 4"
  shows "make_buffers n shp = Inr (replicate n (declared_buffer shp))"
  using assms by (induction n) (auto simp: make_buffer_declared)

text \<open>
  C6.  The input pass accepts an operand exactly when its type is float32, its rank is 2
  or 4, its batch \<open>shapes[0]\<close> is not negative and, if it has buffers, their number is the
  batch and every buffer fits the declared shape (rank 4: channels, height and width;
  rank 2: \<open>1 \<times> features \<times> 1\<close>).  It leaves an operand with buffers as it is and gives an
  operand without buffers one fresh buffer of the declared dimensions per batch element.
\<close>

theorem init_input_operand_accepts:
  "init_input_operand od = Inr od' \<longleftrightarrow>
     operand_type od = kTypeFloat32
     \<and> (length (shapes od) = 2 \<or> length (shapes od) = 4)
     \<and> 0 \<le> sint (shapes od ! 0)
     \<and> (if datas od \<noteq> []
        then int (length (datas od)) = sint (shapes od ! 0)
             \<and> list_all (buffer_fits (shapes od)) (datas od)
             \<and> od' = od
        else od' = od\<lparr>datas := replicate (nat (sint (shapes od ! 0))) (declared_buffer (shapes od))\<rparr>)"
proof (cases "length (shapes od) = 2 \<or> length (shapes od) = 4")
  case True
  then have at0: "vector_at (shapes od) 0 = Inr (shapes od ! 0)"
    by (auto simp: vector_at_def)
  show ?thesis
    using True
    by (auto simp: init_input_operand_def at0 check_input_buffers_fit make_buffers_declared)
next
  case False
  then show ?thesis
    by (auto simp: init_input_operand_def split: sum.splits)
qed

theorem init_input_operand_accepts_witness:
  "init_input_operand \<lparr>operand_name = ''in'', shapes = [2, 3], datas = [], operand_type = kTypeFloat32\<rparr>
     = Inr \<lparr>operand_name = ''in'', shapes = [2, 3],
            datas = [Tensor_new 1 3 1, Tensor_new 1 3 1], operand_type = kTypeFloat32\<rparr>
   \<and> init_input_operand \<lparr>operand_name = ''in'', shapes = [1, 2, 3, 4],
                         datas = [Tensor_new 2 3 4], operand_type = kTypeFloat32\<rparr>
     = Inr \<lparr>operand_name = ''in'', shapes = [1, 2, 3, 4],
            datas = [Tensor_new 2 3 4], operand_type = kTypeFloat32\<rparr>
   \<and> isl (init_input_operand \<lparr>operand_name = ''in'', shapes = [1, 2, 3],
                              datas = [], operand_type = kTypeFloat32\<rparr>)
   \<and> isl (init_input_operand \<lparr>operand_name = ''in'', shapes = [1, 2, 3, 4],
                              datas = [Tensor_new 2 3 5], operand_type = kTypeFloat32\<rparr>)"
proof -
  let ?a = "\<lparr>operand_name = ''in'', shapes = [2, 3], datas = [], operand_type = kTypeFloat32\<rparr>"
  let ?b = "\<lparr>operand_name = ''in'', shapes = [1, 2, 3, 4], datas = [Tensor_new 2 3 4],
             operand_type = kTypeFloat32\<rparr>"
  let ?c = "\<lparr>operand_name = ''in'', shapes = [1, 2, 3], datas = [], operand_type = kTypeFloat32\<rparr>"
  let ?d = "\<lparr>operand_name = ''in'', shapes = [1, 2, 3, 4], datas = [Tensor_new 2 3 5],
             operand_type = kTypeFloat32\<rparr>"
  have two: "replicate 2 x = [x, x]" for x :: Tensor
    by (simp add: numeral_2_eq_2)
  have a: "init_input_operand ?a = Inr (?a\<lparr>datas := [Tensor_new 1 3 1, Tensor_new 1 3 1]\<rparr>)"
    by (subst init_input_operand_accepts) (simp add: declared_buffer_def two)
  have b: "init_input_operand ?b = Inr ?b"
    by (subst init_input_operand_accepts) (simp add: buffer_fits_def Tensor_new_def)
  have c: "init_input_operand ?c \<noteq> Inr od'" for od'
    by (subst init_input_operand_accepts) simp
  have d: "init_input_operand ?d \<noteq> Inr od'" for od'
    by (subst init_input_operand_accepts) (simp add: buffer_fits_def Tensor_new_def)
  have c': "isl (init_input_operand ?c)"
    using c by (cases "init_input_operand ?c") auto
  have d': "isl (init_input_operand ?d)"
    using d by (cases "init_input_operand ?d") auto
  from a b c' d' show ?thesis by simp
qed

lemma new_output_operand_declared:
  assumes "length (pnnx_shape operand) = 2 \<or> length (pnnx_shape operand) = 4"
  shows "new_output_operand operand batch =
     Inr \<lparr>operand_name = pnnx_operand_name operand @ ''_output'',
          shapes = pnnx_shape operand,
          datas = replicate (nat (sint batch)) (declared_buffer (pnnx_shape operand)),
          operand_type = kTypeFloat32\<rparr>"
  using assms by (simp add: new_output_operand_def make_buffers_declared)

lemma init_output_tensor_multiple:
  "1 < length (pnnx_outputs pop) \<Longrightarrow> init_output_tensor (Some pop) p g = Inl MultipleOutputs"
  by (simp add: init_output_tensor_def)

lemma init_output_tensor_absent:
  assumes "pnnx_outputs pop = [Some operand]" "output_operands (op_heap g p) = None"
  shows "init_output_tensor (Some pop) p g = Inr g' \<longleftrightarrow>
     (length (pnnx_shape operand) = 2 \<or> length (pnnx_shape operand) = 4)
     \<and> 0 \<le> sint (pnnx_shape operand ! 0)
     \<and> g' = g\<lparr>operand_heap := (operand_heap g)(free_operand g :=
                 \<lparr>operand_name = pnnx_operand_name operand @ ''_output'',
                  shapes = pnnx_shape operand,
                  datas = replicate (nat (sint (pnnx_shape operand ! 0)))
                            (declared_buffer (pnnx_shape operand)),
                  operand_type = kTypeFloat32\<rparr>),
              free_operand := Suc (free_operand g),
              op_heap := (op_heap g)(p := (op_heap g p)\<lparr>output_operands := Some (free_operand g)\<rparr>)\<rparr>"
proof (cases "length (pnnx_shape operand) = 2 \<or> length (pnnx_shape operand) = 4")
  case True
  then have at0: "vector_at (pnnx_shape operand) 0 = Inr (pnnx_shape operand ! 0)"
    by (auto simp: vector_at_def)
  show ?thesis
    using True assms by (auto simp: init_output_tensor_def at0 new_output_operand_declared)
next
  case False
  then show ?thesis
    using assms by (auto simp: init_output_tensor_def split: sum.splits)
qed

lemma init_output_tensor_present:
  assumes "pnnx_outputs pop = [Some operand]" "output_operands (op_heap g p) = Some r"
    and "init_output_tensor (Some pop) p g = Inr g'"
  shows "int (length (datas (operand_heap g r))) = sint (pnnx_shape operand ! 0)
     \<and> operand_type (operand_heap g r) = kTypeFloat32
     \<and> shapes (operand_heap g r) = pnnx_shape operand
     \<and> g' = g"
  using assms
  by (auto simp: init_output_tensor_def check_output_operand_def vector_at_def
      split: sum.splits if_splits)

text \<open>
  C8, as the code has it.  In the output pass a descriptor with more than one output
  operand is fatal.  For a descriptor with one output operand: when the node has no output
  operand, the pass succeeds exactly when the declared rank is 2 or 4 and the batch is not
  negative, and then the node has a new operand of type float32 with the declared shape,
  one fresh buffer per batch element and the name of the descriptor's operand followed by
  \<open>_output\<close>; when the node has an output operand and the pass succeeds, the number of
  its buffers is the declared batch, its type is float32 (the type code of the descriptor
  is not read), its shape is the declared shape, and the graph is unchanged.
\<close>

theorem init_output_tensor_resolves:
  "(1 < length (pnnx_outputs pop) \<longrightarrow> init_output_tensor (Some pop) p g = Inl MultipleOutputs)
   \<and> (pnnx_outputs pop = [Some operand] \<and> output_operands (op_heap g p) = None \<longrightarrow>
        (init_output_tensor (Some pop) p g = Inr g' \<longleftrightarrow>
           (length (pnnx_shape operand) = 2 \<or> length (pnnx_shape operand) = 4)
           \<and> 0 \<le> sint (pnnx_shape operand ! 0)
           \<and> g' = g\<lparr>operand_heap := (operand_heap g)(free_operand g :=
                       \<lparr>operand_name = pnnx_operand_name operand @ ''_output'',
                        shapes = pnnx_shape operand,
                        datas = replicate (nat (sint (pnnx_shape operand ! 0)))
                                  (declared_buffer (pnnx_shape operand)),
                        operand_type = kTypeFloat32\<rparr>),
                    free_operand := Suc (free_operand g),
                    op_heap := (op_heap g)(p :=
                      (op_heap g p)\<lparr>output_operands := Some (free_operand g)\<rparr>)\<rparr>))
   \<and> (pnnx_outputs pop = [Some operand] \<and> output_operands (op_heap g p) = Some r
        \<and> init_output_tensor (Some pop) p g = Inr g' \<longrightarrow>
          int (length (datas (operand_heap g r))) = sint (pnnx_shape operand ! 0)
          \<and> operand_type (operand_heap g r) = kTypeFloat32
          \<and> shapes (operand_heap g r) = pnnx_shape operand
          \<and> g' = g)"
proof -
  have multiple: "1 < length (pnnx_outputs pop) \<longrightarrow>
      init_output_tensor (Some pop) p g = Inl MultipleOutputs"
    by (simp add: init_output_tensor_multiple)
  have absent: "pnnx_outputs pop = [Some operand] \<and> output_operands (op_heap g p) = None \<longrightarrow>
        (init_output_tensor (Some pop) p g = Inr g' \<longleftrightarrow>
           (length (pnnx_shape operand) = 2 \<or> length (pnnx_shape operand) = 4)
           \<and> 0 \<le> sint (pnnx_shape operand ! 0)
           \<and> g' = g\<lparr>operand_heap := (operand_heap g)(free_operand g :=
                       \<lparr>operand_name = pnnx_operand_name operand @ ''_output'',
                        shapes = pnnx_shape operand,
                        datas = replicate (nat (sint (pnnx_shape operand ! 0)))
                                  (declared_buffer (pnnx_shape operand)),
                        operand_type = kTypeFloat32\<rparr>),
                    free_operand := Suc (free_operand g),
                    op_heap := (op_heap g)(p :=
                      (op_heap g p)\<lparr>output_operands := Some (free_operand g)\<rparr>)\<rparr>)"
  proof (rule impI)
    assume "pnnx_outputs pop = [Some operand] \<and> output_operands (op_heap g p) = None"
    then have one: "pnnx_outputs pop = [Some operand]"
      and none: "output_operands (op_heap g p) = None"
      by simp_all
    show "init_output_tensor (Some pop) p g = Inr g' \<longleftrightarrow>
           (length (pnnx_shape operand) = 2 \<or> length (pnnx_shape operand) = 4)
           \<and> 0 \<le> sint (pnnx_shape operand ! 0)
           \<and> g' = g\<lparr>operand_heap := (operand_heap g)(free_operand g :=
                       \<lparr>operand_name = pnnx_operand_name operand @ ''_output'',
                        shapes = pnnx_shape operand,
                        datas = replicate (nat (sint (pnnx_shape operand ! 0)))
                                  (declared_buffer (pnnx_shape operand)),
                        operand_type = kTypeFloat32\<rparr>),
                    free_operand := Suc (free_operand g),
                    op_heap := (op_heap g)(p :=
                      (op_heap g p)\<lparr>output_operands := Some (free_operand g)\<rparr>)\<rparr>"
      by (rule init_output_tensor_absent [OF one none])
  qed
  have present: "pnnx_outputs pop = [Some operand] \<and> output_operands (op_heap g p) = Some r
        \<and> init_output_tensor (Some pop) p g = Inr g' \<longrightarrow>
          int (length (datas (operand_heap g r))) = sint (pnnx_shape operand ! 0)
          \<and> operand_type (operand_heap g r) = kTypeFloat32
          \<and> shapes (operand_heap g r) = pnnx_shape operand
          \<and> g' = g"
  proof (rule impI)
    assume "pnnx_outputs pop = [Some operand] \<and> output_operands (op_heap g p) = Some r
        \<and> init_output_tensor (Some pop) p g = Inr g'"
    then have one: "pnnx_outputs pop = [Some operand]"
      and some: "output_operands (op_heap g p) = Some r"
      and ok: "init_output_tensor (Some pop) p g = Inr g'"
      by simp_all
    show "int (length (datas (operand_heap g r))) = sint (pnnx_shape operand ! 0)
          \<and> operand_type (operand_heap g r) = kTypeFloat32
          \<and> shapes (operand_heap g r) = pnnx_shape operand
          \<and> g' = g"
      by (rule init_output_tensor_present [OF one some ok])
  qed
  from multiple absent present show ?thesis
    by (rule conjI [OF _ conjI])
qed

theorem init_output_tensor_resolves_witness:
  "init_output_tensor (ex_operator ''a'' ''nn.ReLU'' [] [ex_unused_output, ex_unused_output]) 0 ex_new_graph
     = Inl MultipleOutputs
   \<and> operand_heap (projr (init_output_tensor (ex_operator ''a'' ''nn.ReLU'' [] [ex_unused_output]) 0 ex_new_graph)) 0
     = \<lparr>operand_name = ''1_output'', shapes = [1, 1, 2, 2], datas = [Tensor_new 1 2 2],
        operand_type = kTypeFloat32\<rparr>
   \<and> output_operands (op_heap ex_rank4_graph 1) = Some 3
   \<and> \<not> isl (init_output_tensor (ex_rank4 ! 1) 1 ex_rank4_graph)
   \<and> length (datas (operand_heap ex_rank4_graph 3)) = 1
   \<and> operand_type (operand_heap ex_rank4_graph 3) = kTypeFloat32
   \<and> shapes (operand_heap ex_rank4_graph 3) = [1, 1, 2, 2]"
proof -
  let ?two = "\<lparr>pnnx_inputs = [], pnnx_outputs = [Some ex_unused_output, Some ex_unused_output],
               pnnx_type = ''nn.ReLU'', pnnx_name = ''a'', pnnx_params = [], pnnx_attrs = []\<rparr>"
  let ?one = "\<lparr>pnnx_inputs = [], pnnx_outputs = [Some ex_unused_output],
               pnnx_type = ''nn.ReLU'', pnnx_name = ''a'', pnnx_params = [], pnnx_attrs = []\<rparr>"
  let ?a = "\<lparr>pnnx_inputs = [Some (ex_operand ''in'' [''a'', ''out''] [1, 1, 2, 2] ''0'')],
             pnnx_outputs = [Some ex_unused_output],
             pnnx_type = ''nn.ReLU'', pnnx_name = ''a'', pnnx_params = [], pnnx_attrs = []\<rparr>"
  let ?new = "ex_new_graph\<lparr>operand_heap := (operand_heap ex_new_graph)(free_operand ex_new_graph :=
                       \<lparr>operand_name = pnnx_operand_name ex_unused_output @ ''_output'',
                        shapes = pnnx_shape ex_unused_output,
                        datas = replicate (nat (sint (pnnx_shape ex_unused_output ! 0)))
                                  (declared_buffer (pnnx_shape ex_unused_output)),
                        operand_type = kTypeFloat32\<rparr>),
                    free_operand := Suc (free_operand ex_new_graph),
                    op_heap := (op_heap ex_new_graph)(0 :=
                      (op_heap ex_new_graph 0)\<lparr>output_operands := Some (free_operand ex_new_graph)\<rparr>)\<rparr>"
  have multiple: "init_output_tensor (Some ?two) 0 ex_new_graph = Inl MultipleOutputs"
    using init_output_tensor_resolves [where pop = ?two and p = 0 and g = ex_new_graph] by simp
  have absent: "init_output_tensor (Some ?one) 0 ex_new_graph = Inr ?new"
    using init_output_tensor_resolves [where pop = ?one and operand = ex_unused_output
        and g = ex_new_graph and p = 0 and g' = ?new]
    by (simp add: ex_new_graph_def make_RuntimeOperator_def ex_unused_output_def ex_operand_def)
  have created: "operand_heap ?new 0
     = \<lparr>operand_name = ''1_output'', shapes = [1, 1, 2, 2], datas = [Tensor_new 1 2 2],
        operand_type = kTypeFloat32\<rparr>"
    by (simp add: ex_new_graph_def ex_unused_output_def ex_operand_def declared_buffer_def)
  have a: "ex_rank4 ! 1 = Some ?a"
    by (simp add: ex_rank4_def ex_operator_def Let_def)
  have some: "output_operands (op_heap ex_rank4_graph 1) = Some 3"
    by code_simp
  have accepted: "\<not> isl (init_output_tensor (ex_rank4 ! 1) 1 ex_rank4_graph)"
    by code_simp
  then have "\<not> isl (init_output_tensor (Some ?a) 1 ex_rank4_graph)"
    unfolding a .
  then have ok: "init_output_tensor (Some ?a) 1 ex_rank4_graph
      = Inr (projr (init_output_tensor (Some ?a) 1 ex_rank4_graph))"
    by (rule sum.collapse(2) [symmetric])
  have present: "int (length (datas (operand_heap ex_rank4_graph 3))) = sint (pnnx_shape ex_unused_output ! 0)
     \<and> operand_type (operand_heap ex_rank4_graph 3) = kTypeFloat32
     \<and> shapes (operand_heap ex_rank4_graph 3) = pnnx_shape ex_unused_output"
    using init_output_tensor_resolves [where pop = ?a and operand = ex_unused_output
        and g = ex_rank4_graph and p = 1 and r = 3] some ok
    by simp
  from multiple absent created some accepted present show ?thesis
    by (simp add: ex_operator_def ex_unused_output_def ex_operand_def)
qed

text \<open>
  The claim C8 has the type of an output operand that exists compared with the type of
  the descriptor.  In \<open>ex_rank4_graph\<close> the output operand of node 1 is of type float32,
  the output operand of its descriptor has the type code 2, which is not the code 1 that
  \<open>InitInputOperators\<close> reads as float32, and the pass accepts the node.
\<close>

theorem output_type_counterexample:
  "pnnx_outputs (the (ex_rank4 ! 1)) = [Some ex_unused_output]
   \<and> pnnx_operand_type ex_unused_output = 2
   \<and> output_operands (op_heap ex_rank4_graph 1) = Some 3
   \<and> operand_type (operand_heap ex_rank4_graph 3) = kTypeFloat32
   \<and> \<not> isl (init_output_tensor (ex_rank4 ! 1) 1 ex_rank4_graph)"
  by code_simp


section \<open>Propagation: properties of one delivery\<close>

text \<open>
  \<open>probe_next\<close> without its transient increment and decrement: it skips, it ends the
  process, or it is the net delivery.
\<close>

lemma probe_next_unfold:
  "probe_next p ds c s =
     (case map_of (input_operands (op_heap (graph s) c)) (op_name (op_heap (graph s) p)) of
        None \<Rightarrow> Inr s
      | Some r \<Rightarrow>
          if length ds \<noteq> length (datas (operand_heap (graph s) r)) then Inl (DataSizeMismatch, s)
          else if c \<notin> set (operator_queue s) \<and> producers (graph s) c < counter (graph s) c + 1
          then Inl (MeetNumExceeded,
                    s\<lparr>graph := set_meet_num c (counter (graph s) c + 1)
                       (set_datas r (map (\<lambda>(d, s). set_data d s) (zip (datas (operand_heap (graph s) r)) ds)) (graph s))\<rparr>)
          else Inr (net_delivery p c r
                      (map (\<lambda>(d, s). set_data d s) (zip (datas (operand_heap (graph s) r)) ds)) s))"
proof (cases "length (input_operands (op_heap (graph s) c)) = Suc (meet_num (op_heap (graph s) c))")
  case True
  then show ?thesis
    by (simp add: probe_next_def SetOpInputData_def CheckOperatorReady_def net_delivery_def
      counter_def producers_def Let_def inc_meet_num_def dec_meet_num_def enqueue_def
      count_delivery_def log_event_def push_back_def set_meet_num_def set_datas_def
      split: option.splits)
next
  case False
  then have "Suc (meet_num (op_heap (graph s) c)) \<noteq> length (input_operands (op_heap (graph s) c))"
    by simp
  then show ?thesis
    by (simp add: probe_next_def SetOpInputData_def CheckOperatorReady_def net_delivery_def
      counter_def producers_def Let_def inc_meet_num_def dec_meet_num_def enqueue_def
      count_delivery_def log_event_def push_back_def set_meet_num_def set_datas_def
      split: option.splits)
qed

lemma counter_net_delivery:
  "counter (graph (net_delivery p c r ts s)) q = (if q = c then counter (graph s) c + 1 else counter (graph s) q)"
  by (simp add: net_delivery_def counter_def set_meet_num_def set_datas_def Let_def)

text \<open>
  C10.  A consumer edge whose consumer has no entry for the name of the producing node in
  its \<^verbatim>\<open>input_operands\<close> is skipped: the state of the pass after the edge is the state
  before it, so no buffer is written, no counter is incremented and nothing is pushed.
\<close>

theorem probe_next_skips:
  assumes "map_of (input_operands (op_heap (graph s) c)) (op_name (op_heap (graph s) p)) = None"
  shows "probe_next p ds c s = Inr s"
  using assms by (simp add: probe_next_def)

theorem probe_next_skips_witness:
  "map_of (output_operators (op_heap ex_stray_graph 0)) ''x'' = Some 1
   \<and> map_of (input_operands (op_heap ex_stray_graph 1)) (op_name (op_heap ex_stray_graph 0)) = None
   \<and> probe_next 0 ex_inputs 1 (ex_state ex_stray_graph [2]) = Inr (ex_state ex_stray_graph [2])"
proof -
  have edge: "map_of (output_operators (op_heap ex_stray_graph 0)) ''x'' = Some 1"
    by code_simp
  have unknown: "map_of (input_operands (op_heap (graph (ex_state ex_stray_graph [2])) 1))
      (op_name (op_heap (graph (ex_state ex_stray_graph [2])) 0)) = None"
    by code_simp
  from probe_next_skips [OF unknown] edge unknown show ?thesis
    by (simp add: ex_state_def)
qed

text \<open>
  C2.  A delivery that completes, to a consumer that knows the producer, raises the
  counter of the consumer by exactly one and leaves every other counter as it is, whether
  the consumer is in the work queue or not: the state after it is the net delivery.
\<close>

theorem probe_next_counts_once:
  assumes "map_of (input_operands (op_heap (graph s) c)) (op_name (op_heap (graph s) p)) = Some r"
    and "probe_next p ds c s = Inr s'"
  shows "counter (graph s') c = counter (graph s) c + 1
     \<and> (\<forall>q. q \<noteq> c \<longrightarrow> counter (graph s') q = counter (graph s) q)
     \<and> s' = net_delivery p c r
              (map (\<lambda>(d, s). set_data d s) (zip (datas (operand_heap (graph s) r)) ds)) s"
  using assms by (auto simp: probe_next_unfold counter_net_delivery split: if_splits)

theorem probe_next_counts_once_witness:
  "counter ex_diamond_graph 1 = 0
   \<and> counter (graph (projr (probe_next 0 ex_inputs 1 (ex_state ex_diamond_graph [])))) 1 = 1
   \<and> operator_queue (projr (probe_next 0 ex_inputs 1 (ex_state ex_diamond_graph []))) = [1]
   \<and> counter (graph (projr (probe_next 0 ex_inputs 1 (ex_state ex_diamond_graph [1])))) 1 = 1
   \<and> operator_queue (projr (probe_next 0 ex_inputs 1 (ex_state ex_diamond_graph [1]))) = [1]"
proof -
  let ?a = "ex_state ex_diamond_graph []"
  let ?b = "ex_state ex_diamond_graph [1]"
  have zero: "counter ex_diamond_graph 1 = 0"
    by code_simp
  have known_a: "map_of (input_operands (op_heap (graph ?a) 1)) (op_name (op_heap (graph ?a) 0)) = Some 0"
    by code_simp
  have known_b: "map_of (input_operands (op_heap (graph ?b) 1)) (op_name (op_heap (graph ?b) 0)) = Some 0"
    by code_simp
  have "\<not> isl (probe_next 0 ex_inputs 1 ?a)"
    by code_simp
  then have done_a: "probe_next 0 ex_inputs 1 ?a = Inr (projr (probe_next 0 ex_inputs 1 ?a))"
    by (rule sum.collapse(2) [symmetric])
  have "\<not> isl (probe_next 0 ex_inputs 1 ?b)"
    by code_simp
  then have done_b: "probe_next 0 ex_inputs 1 ?b = Inr (projr (probe_next 0 ex_inputs 1 ?b))"
    by (rule sum.collapse(2) [symmetric])
  have queue_a: "operator_queue (projr (probe_next 0 ex_inputs 1 ?a)) = [1]"
    by code_simp
  have queue_b: "operator_queue (projr (probe_next 0 ex_inputs 1 ?b)) = [1]"
    by code_simp
  have start_a: "counter (graph ?a) 1 = 0" and start_b: "counter (graph ?b) 1 = 0"
    using zero by (simp_all add: ex_state_def)
  from probe_next_counts_once [OF known_a done_a]
  have "counter (graph (projr (probe_next 0 ex_inputs 1 ?a))) 1 = counter (graph ?a) 1 + 1"
    by (rule conjunct1)
  then have one_a: "counter (graph (projr (probe_next 0 ex_inputs 1 ?a))) 1 = 1"
    by (simp only: start_a)
  from probe_next_counts_once [OF known_b done_b]
  have "counter (graph (projr (probe_next 0 ex_inputs 1 ?b))) 1 = counter (graph ?b) 1 + 1"
    by (rule conjunct1)
  then have one_b: "counter (graph (projr (probe_next 0 ex_inputs 1 ?b))) 1 = 1"
    by (simp only: start_b)
  from zero one_a queue_a one_b queue_b show ?thesis
    by (intro conjI)
qed

section \<open>The state guard of \<open>Forward\<close>\<close>

text \<open>
  C5.  A call of \<open>Forward\<close> on a graph whose state is not \<open>Complete\<close> ends at one of the
  two state checks (lines 244 to 247), whatever the bound on the loop: it ends with the
  graph it was given, an empty queue and an empty trace, so no layer has run, no buffer
  is written and no counter has changed.
\<close>

theorem Forward_needs_Complete:
  assumes "m_graph_state g \<noteq> Complete"
  shows "Forward fuel lf g inputs debug = Some (Inl (GraphNeedBuild, \<lparr>graph = g, operator_queue = [], trace = []\<rparr>))
     \<or> Forward fuel lf g inputs debug = Some (Inl (GraphStatusError, \<lparr>graph = g, operator_queue = [], trace = []\<rparr>))"
  using assms by (simp add: Forward_def Let_def)

theorem Forward_needs_Complete_witness:
  "m_graph_state ex_new_graph = NeedInit
   \<and> Forward 9 ex_forward ex_new_graph ex_inputs False
       = Some (Inl (GraphNeedBuild, \<lparr>graph = ex_new_graph, operator_queue = [], trace = []\<rparr>))"
proof -
  have state: "m_graph_state ex_new_graph = NeedInit"
    by (simp add: ex_new_graph_def)
  then have "m_graph_state ex_new_graph \<noteq> Complete"
    by simp
  from Forward_needs_Complete [OF this, of 9 ex_forward ex_inputs False]
  have "Forward 9 ex_forward ex_new_graph ex_inputs False
       = Some (Inl (GraphNeedBuild, \<lparr>graph = ex_new_graph, operator_queue = [], trace = []\<rparr>))"
    by (simp add: Forward_def Let_def state)
  with state show ?thesis by simp
qed


section \<open>The scheduler: the invariant of a pass\<close>

lemma enqueued_append [simp]: "enqueued (es @ es') = enqueued es @ enqueued es'"
  by (induction es rule: enqueued.induct) simp_all

lemma invoked_append [simp]: "invoked (es @ es') = invoked es @ invoked es'"
  by (induction es rule: invoked.induct) simp_all

lemma retried_append [simp]: "retried (es @ es') = retried es @ retried es'"
  by (induction es rule: retried.induct) simp_all

lemma event_ok_mono:
  assumes "event_ok g es e" "set (enqueued es) \<subseteq> set (enqueued es')"
    and "\<And>p. producers g' p = producers g p"
  shows "event_ok g' es' e"
  using assms by (cases e) auto

lemma events_ok_mono:
  assumes "list_all (event_ok g es) xs" "set (enqueued es) \<subseteq> set (enqueued es')"
    and "\<And>p. producers g' p = producers g p"
  shows "list_all (event_ok g' es') xs"
  using assms by (auto simp: list_all_iff intro: event_ok_mono)

lemma producers_set_meet_num [simp]: "producers (set_meet_num p n g) q = producers g q"
  by (simp add: producers_def set_meet_num_def)

lemma producers_set_datas [simp]: "producers (set_datas r ts g) q = producers g q"
  by (simp add: producers_def set_datas_def)

lemma counter_set_meet_num [simp]:
  "counter (set_meet_num p n g) q = (if q = p then n else counter g q)"
  by (simp add: counter_def set_meet_num_def)

lemma counter_set_datas [simp]: "counter (set_datas r ts g) q = counter g q"
  by (simp add: counter_def set_datas_def)

lemma net_delivery_queue:
  "operator_queue (net_delivery p c r ts s) =
     (if c \<notin> set (operator_queue s) \<and> counter (graph s) c + 1 = producers (graph s) c
      then operator_queue s @ [c] else operator_queue s)"
  by (simp add: net_delivery_def Let_def)

lemma net_delivery_trace:
  "trace (net_delivery p c r ts s) =
     trace s @ (if c \<notin> set (operator_queue s) \<and> counter (graph s) c + 1 = producers (graph s) c
                then [Enqueue c False (counter (graph s) c + 1) (producers (graph s) c)] else [])
       @ [Deliver p c (counter (graph s) c + 1) (producers (graph s) c)]"
  by (simp add: net_delivery_def Let_def)

lemma net_delivery_producers [simp]:
  "producers (graph (net_delivery p c r ts s)) q = producers (graph s) q"
  by (simp add: net_delivery_def Let_def)

lemma net_delivery_counter:
  "counter (graph (net_delivery p c r ts s)) q =
     (if q = c then counter (graph s) c + 1 else counter (graph s) q)"
  by (simp add: net_delivery_def Let_def)

lemma pass_inv_net_delivery:
  assumes inv: "pass_inv s"
    and ok: "c \<in> set (operator_queue s) \<or> counter (graph s) c + 1 \<le> producers (graph s) c"
  shows "pass_inv (net_delivery p c r ts s)"
proof (cases "c \<notin> set (operator_queue s) \<and> counter (graph s) c + 1 = producers (graph s) c")
  case True
  then have fresh: "c \<notin> set (enqueued (trace s))" and idle: "c \<notin> set (invoked (trace s))"
    using inv by (auto simp: pass_inv_def)
  let ?s = "net_delivery p c r ts s"
  have q: "operator_queue ?s = operator_queue s @ [c]"
    and t: "trace ?s = trace s @ [Enqueue c False (counter (graph s) c + 1) (producers (graph s) c),
              Deliver p c (counter (graph s) c + 1) (producers (graph s) c)]"
    using True by (simp_all add: net_delivery_queue net_delivery_trace)
  have old: "list_all (event_ok (graph ?s) (trace ?s)) (trace s)"
    using inv by (auto simp: pass_inv_def t intro!: events_ok_mono [of "graph s" "trace s"])
  show ?thesis
    unfolding pass_inv_def
    using inv True fresh idle old
    by (auto simp: q t net_delivery_counter pass_inv_def intro: le_SucI)
next
  case False
  let ?s = "net_delivery p c r ts s"
  have q: "operator_queue ?s = operator_queue s"
    and t: "trace ?s = trace s @ [Deliver p c (counter (graph s) c + 1) (producers (graph s) c)]"
    using False by (simp_all add: net_delivery_queue net_delivery_trace)
  have old: "list_all (event_ok (graph ?s) (trace ?s)) (trace s)"
    using inv by (auto simp: pass_inv_def t intro!: events_ok_mono [of "graph s" "trace s"])
  have new: "producers (graph s) c \<le> counter (graph s) c + 1 \<longrightarrow> c \<in> set (enqueued (trace s))"
    using inv ok False by (auto simp: pass_inv_def)
  show ?thesis
    unfolding pass_inv_def
    using inv old new
    by (auto simp: q t net_delivery_counter pass_inv_def intro: le_SucI)
qed

lemma pass_inv_raise:
  assumes "pass_inv s" "operator_queue s' = operator_queue s" "trace s' = trace s"
    and "\<And>p. producers (graph s') p = producers (graph s) p"
    and "\<And>p. counter (graph s) p \<le> counter (graph s') p"
  shows "pass_inv s'"
proof -
  have "list_all (event_ok (graph s') (trace s')) (trace s')"
    using assms(1,3,4) by (auto simp: pass_inv_def intro: events_ok_mono [of "graph s" "trace s"])
  moreover have "producers (graph s') p \<le> counter (graph s') p"
    if "producers (graph s) p \<le> counter (graph s) p" for p
    using that assms(4) [of p] assms(5) [of p] by simp
  ultimately show ?thesis
    using assms(1,2,3) unfolding pass_inv_def by auto
qed

lemma pass_inv_probe_next:
  assumes "pass_inv s"
  shows "case probe_next p ds c s of Inl x \<Rightarrow> pass_inv (snd x) | Inr s' \<Rightarrow> pass_inv s'"
proof (cases "map_of (input_operands (op_heap (graph s) c)) (op_name (op_heap (graph s) p))")
  case None
  then show ?thesis using assms by (simp add: probe_next_unfold)
next
  case (Some r)
  let ?ts = "map (\<lambda>(d, s). set_data d s) (zip (datas (operand_heap (graph s) r)) ds)"
  have raised: "pass_inv (s\<lparr>graph := set_meet_num c (counter (graph s) c + 1) (set_datas r ?ts (graph s))\<rparr>)"
    by (rule pass_inv_raise [OF assms]) simp_all
  have net: "pass_inv (net_delivery p c r ?ts s)"
    if "c \<in> set (operator_queue s) \<or> counter (graph s) c + 1 \<le> producers (graph s) c"
    using assms that by (rule pass_inv_net_delivery)
  show ?thesis
    using assms raised net by (auto simp: probe_next_unfold Some)
qed

lemma pass_inv_probe_all:
  assumes "pass_inv s"
  shows "case probe_all p ds cs s of Inl x \<Rightarrow> pass_inv (snd x) | Inr s' \<Rightarrow> pass_inv s'"
  using assms
proof (induction cs arbitrary: s)
  case Nil
  then show ?case by simp
next
  case (Cons c cs)
  from pass_inv_probe_next [OF Cons.prems, of p ds c] Cons.IH show ?case
    by (cases "probe_next p ds c s") auto
qed

lemma pass_inv_ProbeNextLayer:
  assumes "pass_inv s"
  shows "case ProbeNextLayer p ds s of Inl x \<Rightarrow> pass_inv (snd x) | Inr s' \<Rightarrow> pass_inv s'"
  unfolding ProbeNextLayer_def using assms by (rule pass_inv_probe_all)

lemma pass_inv_invoke:
  assumes inv: "pass_inv s" and idle: "p \<notin> set (invoked (trace s))" "p \<notin> set (operator_queue s)"
    and ready: "producers (graph s) p \<le> counter (graph s) p" "m = n" "n = producers (graph s) p"
  shows "pass_inv (log_event (Invoke p m n) (s\<lparr>graph := set_datas out ts (graph s)\<rparr>))"
proof -
  have old: "list_all (event_ok (set_datas out ts (graph s)) (trace s @ [Invoke p m n])) (trace s)"
    using inv by (auto simp: pass_inv_def intro!: events_ok_mono [of "graph s" "trace s"])
  show ?thesis
    unfolding pass_inv_def
    using inv idle ready old by (auto simp: log_event_def pass_inv_def)
qed

lemma pass_inv_run_layer:
  assumes inv: "pass_inv s" and idle: "p \<notin> set (invoked (trace s))" "p \<notin> set (operator_queue s)"
    and ready: "counter (graph s) p = producers (graph s) p"
  shows "pass_inv (flow_state (run_layer lf p s))"
proof -
  have probe: "pass_inv (flow_state (case ProbeNextLayer p ds s' of
                  Inl x \<Rightarrow> Fatal (fst x) (snd x) | Inr s2 \<Rightarrow> Next s2))"
    if "pass_inv s'" for s' ds
    using pass_inv_ProbeNextLayer [OF that, of p ds]
    by (cases "ProbeNextLayer p ds s'") (auto simp: flow_state_def)
  have invoke: "pass_inv (log_event (Invoke p (meet_num (op_heap (graph s) p))
                   (length (input_operands (op_heap (graph s) p))))
                    (s\<lparr>graph := set_datas out ts (graph s)\<rparr>))" for out ts
    using pass_inv_invoke [OF inv idle, of _ _ out ts] ready by (simp add: counter_def producers_def)
  show ?thesis
    using inv invoke probe
    by (auto simp: run_layer_def Let_def flow_state_def split: option.splits)
qed

subsection \<open>A pass changes counters and buffers only\<close>

lemma same_nodes_refl [simp]: "same_nodes g g"
  by (simp add: same_nodes_def)

lemma same_nodes_trans: "same_nodes g g' \<Longrightarrow> same_nodes g' g'' \<Longrightarrow> same_nodes g g''"
  by (simp add: same_nodes_def)

lemma same_nodes_set_meet_num [simp]: "same_nodes g (set_meet_num p n g)"
  by (simp add: same_nodes_def set_meet_num_def)

lemma same_nodes_set_datas [simp]: "same_nodes g (set_datas r ts g)"
  by (simp add: same_nodes_def set_datas_def)

lemma same_nodes_node:
  assumes "same_nodes g g'"
  shows "op_heap g' p = (op_heap g p)\<lparr>meet_num := meet_num (op_heap g' p)\<rparr>"
proof -
  from assms have "(op_heap g' p)\<lparr>meet_num := 0\<rparr> = (op_heap g p)\<lparr>meet_num := 0\<rparr>"
    by (simp add: same_nodes_def)
  then have "(op_heap g' p)\<lparr>meet_num := 0\<rparr>\<lparr>meet_num := meet_num (op_heap g' p)\<rparr>
      = (op_heap g p)\<lparr>meet_num := 0\<rparr>\<lparr>meet_num := meet_num (op_heap g' p)\<rparr>"
    by simp
  then show ?thesis by simp
qed

lemma same_nodes_fields:
  assumes "same_nodes g g'"
  shows "input_operands (op_heap g' p) = input_operands (op_heap g p)"
    and "output_operators (op_heap g' p) = output_operators (op_heap g p)"
    and "op_name (op_heap g' p) = op_name (op_heap g p)"
    and "input_operands_seq (op_heap g' p) = input_operands_seq (op_heap g p)"
    and "output_operands (op_heap g' p) = output_operands (op_heap g p)"
    and "layer (op_heap g' p) = layer (op_heap g p)"
    and "m_operators g' = m_operators g"
    and "producers g' p = producers g p"
proof -
  note n = same_nodes_node [OF assms, of p]
  show "input_operands (op_heap g' p) = input_operands (op_heap g p)" by (subst n) simp
  then show "producers g' p = producers g p" by (simp add: producers_def)
  show "output_operators (op_heap g' p) = output_operators (op_heap g p)" by (subst n) simp
  show "op_name (op_heap g' p) = op_name (op_heap g p)" by (subst n) simp
  show "input_operands_seq (op_heap g' p) = input_operands_seq (op_heap g p)" by (subst n) simp
  show "output_operands (op_heap g' p) = output_operands (op_heap g p)" by (subst n) simp
  show "layer (op_heap g' p) = layer (op_heap g p)" by (subst n) simp
  show "m_operators g' = m_operators g" using assms by (simp add: same_nodes_def)
qed

lemma same_nodes_net_delivery [simp]: "same_nodes (graph s) (graph (net_delivery p c r ts s))"
  by (simp add: net_delivery_def Let_def same_nodes_def set_meet_num_def set_datas_def)

lemma same_nodes_probe_next:
  "same_nodes (graph s) (graph (outcome_state (probe_next p ds c s)))"
  by (auto simp: probe_next_unfold outcome_state_def same_nodes_def set_meet_num_def set_datas_def
      net_delivery_def Let_def split: option.splits)

lemma same_nodes_probe_all:
  "same_nodes (graph s) (graph (outcome_state (probe_all p ds cs s)))"
proof (induction cs arbitrary: s)
  case Nil
  then show ?case by (simp add: outcome_state_def)
next
  case (Cons c cs)
  show ?case
  proof (cases "probe_next p ds c s")
    case (Inl x)
    with same_nodes_probe_next [of s p ds c] show ?thesis by (simp add: outcome_state_def)
  next
    case (Inr s')
    with same_nodes_probe_next [of s p ds c] have "same_nodes (graph s) (graph s')"
      by (simp add: outcome_state_def)
    with Cons.IH [of s'] Inr show ?thesis
      by (auto intro: same_nodes_trans)
  qed
qed

lemma same_nodes_ProbeNextLayer:
  "same_nodes (graph s) (graph (outcome_state (ProbeNextLayer p ds s)))"
  unfolding ProbeNextLayer_def by (rule same_nodes_probe_all)

lemma flow_of_probe:
  "flow_state (case r of Inl x \<Rightarrow> Fatal (fst x) (snd x) | Inr s2 \<Rightarrow> Next s2) = outcome_state r"
  by (cases r) (auto simp: flow_state_def outcome_state_def)

lemma same_nodes_run_layer:
  "same_nodes (graph s) (graph (flow_state (run_layer lf p s)))"
proof -
  have step: "same_nodes (graph s) (graph (outcome_state (ProbeNextLayer p ds
       (log_event e (s\<lparr>graph := set_datas out ts (graph s)\<rparr>)))))" for ds e out ts
    using same_nodes_ProbeNextLayer [of "log_event e (s\<lparr>graph := set_datas out ts (graph s)\<rparr>)" p ds]
    by (auto simp: log_event_def intro: same_nodes_trans [OF same_nodes_set_datas])
  show ?thesis
    using step
    by (auto simp: run_layer_def Let_def flow_of_probe split: option.splits)
      (auto simp: flow_state_def log_event_def)
qed

lemma same_nodes_forward_body:
  "same_nodes (graph s) (graph (flow_state (forward_body lf inputs input_op output_op s)))"
proof (cases "operator_queue s")
  case Nil
  then show ?thesis by (simp add: forward_body_def flow_state_def)
next
  case (Cons p rest)
  have probe: "same_nodes (graph s) (graph (outcome_state (ProbeNextLayer p inputs (s\<lparr>operator_queue := rest\<rparr>))))"
    using same_nodes_ProbeNextLayer [of "s\<lparr>operator_queue := rest\<rparr>" p inputs] by simp
  have run: "same_nodes (graph s) (graph (flow_state (run_layer lf p (log_event e (s\<lparr>operator_queue := rest\<rparr>)))))" for e
    using same_nodes_run_layer [of "log_event e (s\<lparr>operator_queue := rest\<rparr>)" lf p]
    by (simp add: log_event_def)
  show ?thesis
    using probe run
    by (auto simp: forward_body_def Cons Let_def flow_of_probe split: sum.splits)
      (auto simp: flow_state_def log_event_def push_back_def)
qed

lemma same_nodes_forward_loop:
  assumes "forward_loop fuel lf inputs input_op output_op s = Some r"
  shows "same_nodes (graph s) (graph (outcome_state r))"
  using assms
proof (induction fuel arbitrary: s)
  case 0
  then show ?case by (auto simp: outcome_state_def split: if_splits)
next
  case (Suc n)
  show ?case
  proof (cases "operator_queue s = []")
    case True
    with Suc.prems show ?thesis by (auto simp: outcome_state_def)
  next
    case False
    note body = same_nodes_forward_body [of s lf inputs input_op output_op]
    show ?thesis
    proof (cases "forward_body lf inputs input_op output_op s")
      case (Next s')
      with Suc.prems False have "forward_loop n lf inputs input_op output_op s' = Some r"
        by simp
      from Suc.IH [OF this] body Next show ?thesis
        by (auto simp: flow_state_def intro: same_nodes_trans)
    next
      case (Stop s')
      with Suc.prems False body show ?thesis
        by (auto simp: flow_state_def outcome_state_def)
    next
      case (Fatal e s')
      with Suc.prems False body show ?thesis
        by (auto simp: flow_state_def outcome_state_def)
    qed
  qed
qed

subsection \<open>The loop and \<open>Forward\<close>\<close>

lemma pass_inv_fresh:
  assumes "trace s = []" "operator_queue s = []"
  shows "pass_inv s"
  using assms by (simp add: pass_inv_def)

lemma pass_inv_pop:
  assumes "pass_inv s" "operator_queue s = p # rest"
  shows "pass_inv (s\<lparr>operator_queue := rest\<rparr>)"
    and "p \<notin> set rest"
    and "p \<notin> set (invoked (trace s))"
    and "producers (graph s) p \<le> counter (graph s) p"
  using assms by (auto simp: pass_inv_def)

lemma pass_inv_check:
  assumes inv: "pass_inv s" and ok: "n = producers (graph s) p" "n \<le> m"
  shows "pass_inv (log_event (Check p m n) s)"
proof -
  have old: "list_all (event_ok (graph s) (trace s @ [Check p m n])) (trace s)"
    using inv by (auto simp: pass_inv_def intro!: events_ok_mono [of "graph s" "trace s"])
  show ?thesis
    unfolding pass_inv_def
    using inv ok old by (auto simp: log_event_def pass_inv_def)
qed

lemma pass_inv_forward_body:
  assumes head: "head_inv input_op s" and busy: "operator_queue s \<noteq> []"
  shows "pass_inv (flow_state (forward_body lf inputs input_op output_op s))"
proof -
  from busy obtain p rest where q: "operator_queue s = p # rest"
    by (cases "operator_queue s") auto
  let ?s1 = "s\<lparr>operator_queue := rest\<rparr>"
  have popped: "pass_inv ?s1"
    using head q by (auto simp: head_inv_def intro: pass_inv_fresh pass_inv_pop(1))
  show ?thesis
  proof (cases "p = output_op \<or> p = input_op")
    case True
    with popped pass_inv_ProbeNextLayer [OF popped, of p inputs] show ?thesis
      by (cases "ProbeNextLayer p inputs ?s1") (auto simp: forward_body_def q flow_state_def Let_def)
  next
    case False
    with head q have inv: "pass_inv s"
      by (auto simp: head_inv_def)
    note pop = pass_inv_pop [OF inv q]
    let ?m = "meet_num (op_heap (graph s) p)"
    let ?n = "length (input_operands (op_heap (graph s) p))"
    let ?s2 = "log_event (Check p ?m ?n) ?s1"
    have le: "?n \<le> ?m"
      using pop(4) by (simp add: producers_def counter_def)
    have checked: "pass_inv ?s2"
      using pop(1) le by (intro pass_inv_check) (simp_all add: producers_def)
    have ready: "CheckOperatorReady (op_heap (graph s) p) = Inl MeetNumExceeded
        \<or> (CheckOperatorReady (op_heap (graph s) p) = Inr True \<and> ?m = ?n)"
      using le by (auto simp: CheckOperatorReady_def)
    have run: "pass_inv (flow_state (run_layer lf p ?s2))" if "?m = ?n"
    proof (rule pass_inv_run_layer [OF checked])
      show "p \<notin> set (invoked (trace ?s2))" using pop(3) by (simp add: log_event_def)
      show "p \<notin> set (operator_queue ?s2)" using pop(2) by (simp add: log_event_def)
      show "counter (graph ?s2) p = producers (graph ?s2) p"
        using that by (simp add: log_event_def counter_def producers_def)
    qed
    from ready show ?thesis
    proof
      assume "CheckOperatorReady (op_heap (graph s) p) = Inl MeetNumExceeded"
      with False checked show ?thesis
        by (simp add: forward_body_def q Let_def flow_state_def)
    next
      assume "CheckOperatorReady (op_heap (graph s) p) = Inr True \<and> ?m = ?n"
      with False run show ?thesis
        by (simp add: forward_body_def q Let_def)
    qed
  qed
qed

lemma pass_inv_forward_loop:
  assumes "head_inv input_op s"
    and "forward_loop fuel lf inputs input_op output_op s = Some r"
  shows "pass_inv (outcome_state r)"
  using assms
proof (induction fuel arbitrary: s)
  case 0
  then show ?case
    by (auto simp: outcome_state_def head_inv_def split: if_splits)
next
  case (Suc n)
  show ?case
  proof (cases "operator_queue s = []")
    case True
    with Suc.prems show ?thesis
      by (auto simp: outcome_state_def head_inv_def)
  next
    case False
    note body = pass_inv_forward_body [OF Suc.prems(1) False, of lf inputs output_op]
    show ?thesis
    proof (cases "forward_body lf inputs input_op output_op s")
      case (Next s')
      with Suc.prems False have run: "forward_loop n lf inputs input_op output_op s' = Some r"
        by simp
      from body Next have "head_inv input_op s'"
        by (simp add: flow_state_def head_inv_def)
      from Suc.IH [OF this run] show ?thesis .
    next
      case (Stop s')
      with Suc.prems False body show ?thesis
        by (auto simp: flow_state_def outcome_state_def)
    next
      case (Fatal e s')
      with Suc.prems False body show ?thesis
        by (auto simp: flow_state_def outcome_state_def)
    qed
  qed
qed

lemma trace_ok_of_pass_inv:
  assumes "pass_inv s" "same_nodes g (graph s)"
  shows "trace_ok g (trace s)"
proof -
  have "producers g p = producers (graph s) p" for p
    using same_nodes_fields(8) [OF assms(2), of p] by simp
  then have "list_all (event_ok g (trace s)) (trace s)"
    using assms(1) by (auto simp: pass_inv_def intro: events_ok_mono [of "graph s" "trace s"])
  then show ?thesis
    using assms(1) by (simp add: trace_ok_def pass_inv_def)
qed

lemma reset_meet_num_node:
  "reset_meet_num ps oh p = (if p \<in> set ps then (oh p)\<lparr>meet_num := 0\<rparr> else oh p)"
  by (induction ps arbitrary: oh) auto

lemma same_nodes_reset: "same_nodes (graph s) (graph (reset_counters s))"
  by (simp add: reset_counters_def same_nodes_def reset_meet_num_node)

lemma Forward_cases:
  assumes "Forward fuel lf g inputs debug = Some r"
  obtains (rejected) e where "r = Inl (e, \<lparr>graph = g, operator_queue = [], trace = []\<rparr>)"
  | (fatal) input_op output_op e s where
      "map_of (m_input_operators_maps g) (m_input_name g) = Some input_op"
      "map_of (m_output_operators_maps g) (m_output_name g) = Some output_op"
      "forward_loop fuel lf inputs input_op output_op
         \<lparr>graph = g, operator_queue = [input_op], trace = []\<rparr> = Some (Inl (e, s))"
      "r = Inl (e, s)"
  | (paths) input_op output_op s where
      "map_of (m_input_operators_maps g) (m_input_name g) = Some input_op"
      "map_of (m_output_operators_maps g) (m_output_name g) = Some output_op"
      "forward_loop fuel lf inputs input_op output_op
         \<lparr>graph = g, operator_queue = [input_op], trace = []\<rparr> = Some (Inr s)"
      "length (input_operands (op_heap (graph (reset_counters s)) output_op)) \<noteq> 1"
      "r = Inl (MultiplePathsToOutput, reset_counters s)"
  | (returned) input_op output_op s k x where
      "map_of (m_input_operators_maps g) (m_input_name g) = Some input_op"
      "map_of (m_output_operators_maps g) (m_output_name g) = Some output_op"
      "forward_loop fuel lf inputs input_op output_op
         \<lparr>graph = g, operator_queue = [input_op], trace = []\<rparr> = Some (Inr s)"
      "input_operands (op_heap (graph (reset_counters s)) output_op) = [(k, x)]"
      "r = Inr (datas (operand_heap (graph (reset_counters s)) x), reset_counters s)"
  using assms
  by (auto simp: Forward_def Let_def push_back_def reset_counters_def
      split: if_splits option.splits sum.splits list.splits)

lemma Forward_trace_ok:
  assumes "Forward fuel lf g inputs debug = Some r"
  shows "trace_ok g (trace (final_state r))" and "same_nodes g (graph (final_state r))"
proof -
  have start: "head_inv input_op \<lparr>graph = g, operator_queue = [input_op], trace = []\<rparr>" for input_op
    by (simp add: head_inv_def)
  have loop: "trace_ok g (trace (outcome_state x)) \<and> same_nodes g (graph (outcome_state x))"
    if "forward_loop fuel lf inputs input_op output_op
          \<lparr>graph = g, operator_queue = [input_op], trace = []\<rparr> = Some x" for input_op output_op x
    using pass_inv_forward_loop [OF start that] same_nodes_forward_loop [OF that]
    by (auto intro: trace_ok_of_pass_inv)
  have both: "trace_ok g (trace (final_state r)) \<and> same_nodes g (graph (final_state r))"
    using assms
  proof (cases rule: Forward_cases)
    case (rejected e)
    then show ?thesis by (simp add: final_state_def trace_ok_def)
  next
    case (fatal input_op output_op e s)
    with loop [OF fatal(3)] show ?thesis by (simp add: final_state_def outcome_state_def)
  next
    case (paths input_op output_op s)
    with loop [OF paths(3)] same_nodes_reset [of s] show ?thesis
      by (auto simp: final_state_def outcome_state_def reset_counters_def intro: same_nodes_trans)
  next
    case (returned input_op output_op s k x)
    with loop [OF returned(3)] same_nodes_reset [of s] show ?thesis
      by (auto simp: final_state_def outcome_state_def reset_counters_def intro: same_nodes_trans)
  qed
  then show "trace_ok g (trace (final_state r))" and "same_nodes g (graph (final_state r))"
    by simp_all
qed

lemma event_ok_Invoke:
  assumes "list_all (event_ok g es) xs" "Invoke p m n \<in> set xs"
  shows "m = producers g p \<and> n = producers g p"
  using assms by (auto simp: list_all_iff)

lemma event_ok_Enqueue:
  assumes "list_all (event_ok g es) xs" "Enqueue c q m n \<in> set xs"
  shows "\<not> q \<and> m = producers g c \<and> n = producers g c"
  using assms by (auto simp: list_all_iff)

lemma event_ok_Deliver:
  assumes "list_all (event_ok g es) xs" "Deliver p c m n \<in> set xs"
  shows "n = producers g c \<and> (n \<le> m \<longrightarrow> c \<in> set (enqueued es))"
  using assms by (auto simp: list_all_iff)

lemma event_ok_Check:
  assumes "list_all (event_ok g es) xs" "Check p m n \<in> set xs"
  shows "n = producers g p \<and> n \<le> m"
  using assms by (auto simp: list_all_iff)

lemma event_ok_no_Retry:
  assumes "list_all (event_ok g es) xs"
  shows "retried xs = []"
  using assms by (induction xs rule: retried.induct) auto

text \<open>
  C1.  In every pass, the layer of a node is called only on a delivery counter that equals
  the number of distinct producers of the node, the size of its \<^verbatim>\<open>input_operands\<close> (in the
  witness a node with one producer and two entries in \<^verbatim>\<open>input_operands_seq\<close> runs on the
  counter 1), and no node has its layer called twice.  This holds for every graph, and for
  a pass that ends at a fatal site as well.
\<close>

theorem layer_invoked_when_ready_and_once:
  assumes "Forward fuel lf g inputs debug = Some r"
  shows "(\<forall>p m n. Invoke p m n \<in> set (trace (final_state r)) \<longrightarrow>
            m = producers g p \<and> n = length (input_operands (op_heap g p)))
     \<and> distinct (invoked (trace (final_state r)))"
  using Forward_trace_ok(1) [OF assms]
  by (auto simp: trace_ok_def producers_def dest: event_ok_Invoke)

theorem layer_invoked_when_ready_and_once_witness:
  "map_option (\<lambda>r. invoked (trace (final_state r)))
      (Forward 9 ex_forward ex_diamond_graph ex_inputs False) = Some [1, 2, 3]
   \<and> distinct [1, 2, 3 :: nat]
   \<and> map_option (\<lambda>r. trace (final_state r)) (Forward 9 ex_forward ex_square_graph ex_inputs False)
       = Some [Enqueue 1 False 1 1, Deliver 0 1 1 1, Check 1 1 1, Invoke 1 1 1,
               Enqueue 2 False 1 1, Deliver 1 2 1 1, Check 2 1 1, Invoke 2 1 1,
               Enqueue 3 False 1 1, Deliver 2 3 1 1]
   \<and> producers ex_square_graph 2 = 1
   \<and> length (input_operands_seq (op_heap ex_square_graph 2)) = 2"
proof -
  have run: "map_option (\<lambda>r. invoked (trace (final_state r)))
      (Forward 9 ex_forward ex_diamond_graph ex_inputs False) = Some [1, 2, 3]"
    by code_simp
  then obtain r where r: "Forward 9 ex_forward ex_diamond_graph ex_inputs False = Some r"
    and inv: "invoked (trace (final_state r)) = [1, 2, 3]"
    by auto
  from layer_invoked_when_ready_and_once [OF r] inv have once: "distinct [1, 2, 3 :: nat]"
    by simp
  have square: "map_option (\<lambda>r. trace (final_state r)) (Forward 9 ex_forward ex_square_graph ex_inputs False)
       = Some [Enqueue 1 False 1 1, Deliver 0 1 1 1, Check 1 1 1, Invoke 1 1 1,
               Enqueue 2 False 1 1, Deliver 1 2 1 1, Check 2 1 1, Invoke 2 1 1,
               Enqueue 3 False 1 1, Deliver 2 3 1 1]"
    by code_simp
  then obtain r' where r': "Forward 9 ex_forward ex_square_graph ex_inputs False = Some r'"
    and t: "Invoke 2 1 1 \<in> set (trace (final_state r'))"
    by auto
  from layer_invoked_when_ready_and_once [OF r'] t have "(1::nat) = producers ex_square_graph 2"
    by blast
  moreover have "length (input_operands_seq (op_heap ex_square_graph 2)) = 2"
    by code_simp
  ultimately show ?thesis
    using run once square by simp
qed

text \<open>
  C3, as the code has it.  In every pass a node is pushed by propagation at most once;
  each push happens when the node is not in the queue and its counter, after the
  increment for the delivery, equals its number of producers; and the consumer of every
  delivery that has brought its counter to that number is among the pushed nodes.  So a
  consumer is pushed exactly once when it becomes ready and never while it is not.
\<close>

theorem consumer_enqueued_at_most_once:
  assumes "Forward fuel lf g inputs debug = Some r"
  shows "(\<forall>c q m n. Enqueue c q m n \<in> set (trace (final_state r)) \<longrightarrow>
            \<not> q \<and> m = producers g c \<and> n = producers g c)
     \<and> distinct (enqueued (trace (final_state r)))
     \<and> (\<forall>p c m n. Deliver p c m n \<in> set (trace (final_state r)) \<and> producers g c \<le> m \<longrightarrow>
            c \<in> set (enqueued (trace (final_state r))))"
proof -
  from Forward_trace_ok(1) [OF assms]
  have ok: "list_all (event_ok g (trace (final_state r))) (trace (final_state r))"
    and once: "distinct (enqueued (trace (final_state r)))"
    by (simp_all add: trace_ok_def)
  from ok once show ?thesis
    by (auto dest: event_ok_Enqueue event_ok_Deliver)
qed

theorem consumer_enqueued_at_most_once_witness:
  "map_option (\<lambda>r. trace (final_state r)) (Forward 9 ex_forward ex_diamond_graph ex_inputs False)
     = Some [Enqueue 1 False 1 1, Deliver 0 1 1 1, Enqueue 2 False 1 1, Deliver 0 2 1 1,
             Check 1 1 1, Invoke 1 1 1, Deliver 1 3 1 2, Check 2 1 1, Invoke 2 1 1,
             Enqueue 3 False 2 2, Deliver 2 3 2 2, Check 3 2 2, Invoke 3 2 2,
             Enqueue 4 False 1 1, Deliver 3 4 1 1]
   \<and> producers ex_diamond_graph 3 = 2
   \<and> distinct [1, 2, 3, 4 :: nat]"
proof -
  let ?t = "[Enqueue 1 False 1 1, Deliver 0 1 1 1, Enqueue 2 False 1 1, Deliver 0 2 1 1,
             Check 1 1 1, Invoke 1 1 1, Deliver 1 3 1 2, Check 2 1 1, Invoke 2 1 1,
             Enqueue 3 False 2 2, Deliver 2 3 2 2, Check 3 2 2, Invoke 3 2 2,
             Enqueue 4 False 1 1, Deliver 3 4 1 1]"
  have run: "map_option (\<lambda>r. trace (final_state r)) (Forward 9 ex_forward ex_diamond_graph ex_inputs False)
     = Some ?t"
    by code_simp
  then obtain r where r: "Forward 9 ex_forward ex_diamond_graph ex_inputs False = Some r"
    and t: "trace (final_state r) = ?t"
    by auto
  note facts = consumer_enqueued_at_most_once [OF r, unfolded t]
  have "Enqueue 3 False 2 2 \<in> set ?t"
    by simp
  with facts have two: "2 = producers ex_diamond_graph 3"
    by blast
  from facts have "distinct (enqueued ?t)"
    by blast
  then have "distinct [1, 2, 3, 4 :: nat]"
    by simp
  with run two show ?thesis
    by simp
qed

text \<open>
  The claim C3 has every consumer pushed exactly once in a pass.  In \<open>ex_constant_graph\<close>
  the node \<open>c\<close> (node 2) is a consumer of \<open>in\<close> and waits for the constant \<open>w\<close>, which no
  pass reaches: the pass delivers to \<open>c\<close>, returns, and has not pushed \<open>c\<close>.
\<close>

theorem consumer_never_enqueued_counterexample:
  "map_of (output_operators (op_heap ex_constant_graph 0)) ''c'' = Some 2
   \<and> map_option (\<lambda>r. (isl r, trace (final_state r)))
        (Forward 9 ex_forward ex_constant_graph ex_inputs False)
       = Some (False, [Deliver 0 2 1 2, Enqueue 3 False 1 1, Deliver 0 3 1 1])
   \<and> enqueued [Deliver 0 2 1 2, Enqueue 3 False 1 1, Deliver 0 3 1 1] = [3]
   \<and> count_list (enqueued [Deliver 0 2 1 2, Enqueue 3 False 1 1, Deliver 0 3 1 1]) 2 = 0"
  by code_simp

text \<open>
  C4.  A call of \<open>Forward\<close> that returns has set the counter of every node of the graph
  to zero and has changed no node otherwise; the designated output node has exactly one
  input operand (any other number ends the call at line 328), and the result is the
  buffer list of that operand.
\<close>

theorem Forward_returns:
  assumes "Forward fuel lf g inputs debug = Some (Inr (result, s))"
  shows "(\<forall>p \<in> set (m_operators g). counter (graph s) p = 0)
     \<and> same_nodes g (graph s)
     \<and> (\<exists>output_op k x.
          map_of (m_output_operators_maps g) (m_output_name g) = Some output_op
          \<and> input_operands (op_heap g output_op) = [(k, x)]
          \<and> result = datas (operand_heap (graph s) x))"
  using assms
proof (cases rule: Forward_cases)
  case (returned input_op output_op s' k x)
  then have s: "s = reset_counters s'" and res: "result = datas (operand_heap (graph s) x)"
    by simp_all
  have loop: "same_nodes g (graph s')"
    using same_nodes_forward_loop [OF returned(3)] by (simp add: outcome_state_def)
  then have same: "same_nodes g (graph s)"
    unfolding s using same_nodes_reset by (rule same_nodes_trans)
  have "counter (graph s) p = 0" if "p \<in> set (m_operators g)" for p
    using that same_nodes_fields(7) [OF loop]
    by (simp add: s reset_counters_def counter_def reset_meet_num_node)
  moreover have "input_operands (op_heap g output_op) = [(k, x)]"
    using returned(4) same_nodes_fields(1) [OF same, of output_op] by (simp add: s)
  ultimately show ?thesis
    using same res returned(2) by blast
qed simp_all

theorem Forward_returns_witness:
  "map_option (map_sum (\<lambda>x. ()) fst) (Forward 9 ex_forward ex_diamond_graph ex_inputs False)
     = Some (Inr ex_inputs)
   \<and> map_of (m_output_operators_maps ex_diamond_graph) (m_output_name ex_diamond_graph) = Some 4
   \<and> input_operands (op_heap ex_diamond_graph 4) = [(''c'', 4)]
   \<and> m_operators ex_diamond_graph = [0, 1, 2, 3, 4]
   \<and> list_all (\<lambda>p. counter (graph (final_state (the (Forward 9 ex_forward ex_diamond_graph ex_inputs False)))) p = 0)
        [0, 1, 2, 3, 4]"
proof -
  let ?f = "Forward 9 ex_forward ex_diamond_graph ex_inputs False"
  have run: "map_option (map_sum (\<lambda>x. ()) fst) ?f = Some (Inr ex_inputs)"
    by code_simp
  then obtain y where y: "?f = Some (Inr y)"
    by (cases ?f) (auto simp: map_sum_def split: sum.splits)
  then have returned: "?f = Some (Inr (fst y, snd y))" and final: "final_state (the ?f) = snd y"
    by (simp_all add: final_state_def)
  have sink: "map_of (m_output_operators_maps ex_diamond_graph) (m_output_name ex_diamond_graph) = Some 4"
    by code_simp
  have one: "input_operands (op_heap ex_diamond_graph 4) = [(''c'', 4)]"
    by code_simp
  have nodes: "m_operators ex_diamond_graph = [0, 1, 2, 3, 4]"
    by code_simp
  from Forward_returns [OF returned]
  have "\<forall>p \<in> set (m_operators ex_diamond_graph). counter (graph (snd y)) p = 0"
    by blast
  then have "list_all (\<lambda>p. counter (graph (final_state (the ?f))) p = 0) [0, 1, 2, 3, 4]"
    unfolding final nodes by (simp add: list_all_iff)
  with run sink one nodes show ?thesis
    by blast
qed

section \<open>Building twice\<close>

lemma same_wiring_refl [simp]: "same_wiring g g"
  by (simp add: same_wiring_def)







lemma Build_Complete:
  assumes "m_graph_state g = Complete"
  shows "Build load create g input_name output_name =
     (if m_operators g = [] then Inl GraphOperatorsEmpty
      else case bind_layers create (m_operators g)
                  (g\<lparr>m_input_operators_maps := [], m_output_operators_maps := []\<rparr>) of
             Inl e \<Rightarrow> Inl e
           | Inr g2 \<Rightarrow>
              (case InitOperatorInputTensor (m_operators g2) g2 of
                 Inl e \<Rightarrow> Inl e
               | Inr g3 \<Rightarrow>
                  (case m_graph g3 of
                     None \<Rightarrow> Inl NullPointer
                   | Some ops \<Rightarrow>
                      (case InitOperatorOutputTensor ops (m_operators g3) g3 of
                         Inl e \<Rightarrow> Inl e
                       | Inr g4 \<Rightarrow>
                          Inr (g4\<lparr>m_graph_state := Complete,
                                  m_input_name := input_name,
                                  m_output_name := output_name\<rparr>)))))"
  using assms by (simp add: Build_def)

















subsection \<open>The sentinel maps\<close>

text \<open>
  \<open>string_less\<close> is a strict linear order, so a map built by \<open>map_insert\<close> is sorted, and
  \<open>map_insert\<close> changes what \<open>map_of\<close> finds only under a key that was absent.
\<close>

lemma string_less_irrefl [simp]: "\<not> string_less x x"
  by (induction x) auto






subsection \<open>What the three passes of \<open>Build\<close> change\<close>

lemma bind_layers_frame:
  assumes "bind_layers create ps g = Inr g'"
  shows "m_operators g' = m_operators g \<and> operand_heap g' = operand_heap g
     \<and> free_op g' = free_op g \<and> free_operand g' = free_operand g
     \<and> m_graph g' = m_graph g \<and> m_graph_state g' = m_graph_state g
     \<and> m_param_path g' = m_param_path g \<and> m_bin_path g' = m_bin_path g"
  using assms
  by (induction ps arbitrary: g) (auto simp: Let_def split: if_splits option.splits)

lemma bind_layers_nodes:
  assumes "bind_layers create ps g = Inr g'"
  shows "op_heap g' p =
     (if op_type (op_heap g p) = ''pnnx.Input'' \<or> op_type (op_heap g p) = ''pnnx.Output''
      then op_heap g p
      else ((\<lambda>rop. rop\<lparr>layer := create rop\<rparr>) ^^ count_list ps p) (op_heap g p))"
  using assms
proof (induction ps arbitrary: g)
  case Nil
  then show ?case by simp
next
  case (Cons q ps)
  let ?rop = "op_heap g q"
  let ?F = "\<lambda>rop. rop\<lparr>layer := create rop\<rparr>"
  consider (source) "op_type ?rop = ''pnnx.Input''"
    | (sink) "op_type ?rop \<noteq> ''pnnx.Input''" "op_type ?rop = ''pnnx.Output''"
    | (inner) "op_type ?rop \<noteq> ''pnnx.Input''" "op_type ?rop \<noteq> ''pnnx.Output''"
    by blast
  then show ?case
  proof cases
    case source
    with Cons.prems have "bind_layers create ps
        (g\<lparr>m_input_operators_maps := map_insert (op_name ?rop) q (m_input_operators_maps g)\<rparr>) = Inr g'"
      by (simp add: Let_def)
    from Cons.IH [OF this] source show ?thesis by auto
  next
    case sink
    with Cons.prems have "bind_layers create ps
        (g\<lparr>m_output_operators_maps := map_insert (op_name ?rop) q (m_output_operators_maps g)\<rparr>) = Inr g'"
      by (simp add: Let_def)
    from Cons.IH [OF this] sink show ?thesis by auto
  next
    case inner
    with Cons.prems obtain l where l: "create ?rop = Some l"
      and rest: "bind_layers create ps (g\<lparr>op_heap := (op_heap g)(q := ?rop\<lparr>layer := Some l\<rparr>)\<rparr>) = Inr g'"
      by (auto simp: Let_def split: option.splits)
    have step: "?rop\<lparr>layer := Some l\<rparr> = ?F ?rop"
      by (simp add: l)
    show ?thesis
    proof (cases "p = q")
      case True
      with Cons.IH [OF rest] inner funpow_swap1 [of ?F "count_list ps q" ?rop] show ?thesis
        by (simp add: step)
    next
      case False
      with Cons.IH [OF rest] show ?thesis
        by simp
    qed
  qed
qed



lemma operand_kept_refl [simp]: "operand_kept od od"
  by (simp add: operand_kept_def)

lemma operand_kept_trans:
  assumes "operand_kept a b" "operand_kept b c"
  shows "operand_kept a c"
proof -
  from assms have b: "b = a\<lparr>datas := datas b\<rparr>" and c: "c = b\<lparr>datas := datas c\<rparr>"
    by (simp_all add: operand_kept_def)
  from b have shp: "shapes b = shapes a"
    by (metis RuntimeOperand.select_convs(2) RuntimeOperand.surjective RuntimeOperand.update_convs(3))
  from b c have "c = a\<lparr>datas := datas c\<rparr>"
    by (metis RuntimeOperand.update_convs(3) RuntimeOperand.surjective)
  with assms shp show ?thesis
    by (auto simp: operand_kept_def)
qed

lemma init_input_operand_kept:
  assumes "init_input_operand od = Inr od'"
  shows "operand_kept od od'"
  using assms
  by (auto simp: init_input_operand_def operand_kept_def vector_at_def make_buffers_declared
      split: if_splits sum.splits)

lemma init_input_operands_kept:
  assumes "init_input_operands m h = Inr h'"
  shows "operand_kept (h x) (h' x)"
  using assms
proof (induction m h rule: init_input_operands.induct)
  case (1 h)
  then show ?case by simp
next
  case (2 k r m h)
  then obtain od where od: "init_input_operand (h r) = Inr od"
    and rest: "init_input_operands m (h(r := od)) = Inr h'"
    by (auto split: sum.splits)
  have "operand_kept (h x) ((h(r := od)) x)"
    using init_input_operand_kept [OF od] by simp
  then show ?case
    using "2.IH" [OF od rest] by (rule operand_kept_trans)
qed

lemma init_input_operators_kept:
  assumes "init_input_operators ps oh h = Inr h'"
  shows "operand_kept (h x) (h' x)"
  using assms
proof (induction ps arbitrary: h)
  case Nil
  then show ?case by simp
next
  case (Cons p ps)
  show ?case
  proof (cases "input_operands (oh p) = []")
    case True
    with Cons show ?thesis by simp
  next
    case False
    with Cons.prems obtain h1 where one: "init_input_operands (input_operands (oh p)) h = Inr h1"
      and rest: "init_input_operators ps oh h1 = Inr h'"
      by (auto split: sum.splits)
    from init_input_operands_kept [OF one] Cons.IH [OF rest] show ?thesis
      by (rule operand_kept_trans)
  qed
qed

lemma InitOperatorInputTensor_kept:
  assumes "InitOperatorInputTensor ps g = Inr g'"
  shows "operand_kept (operand_heap g x) (operand_heap g' x)
     \<and> op_heap g' = op_heap g \<and> m_operators g' = m_operators g
     \<and> m_input_operators_maps g' = m_input_operators_maps g
     \<and> m_output_operators_maps g' = m_output_operators_maps g
     \<and> m_graph g' = m_graph g \<and> m_param_path g' = m_param_path g \<and> m_bin_path g' = m_bin_path g
     \<and> free_op g' = free_op g \<and> free_operand g' = free_operand g"
  using assms
  by (auto simp: InitOperatorInputTensor_def split: if_splits sum.splits
      dest: init_input_operators_kept)

lemma output_operands_kept_refl [simp]: "output_operands_kept g g"
  by (simp add: output_operands_kept_def)



lemma init_output_tensor_kept:
  assumes "init_output_tensor pop p g = Inr g'"
  shows "output_operands_kept g g'"
    and "(op_heap g' q)\<lparr>output_operands := output_operands (op_heap g q)\<rparr> = op_heap g q"
    and "x < free_operand g \<Longrightarrow> operand_heap g' x = operand_heap g x"
  using assms
  by (auto simp: init_output_tensor_def output_operands_kept_def
      split: option.splits list.splits sum.splits if_splits)



lemma funpow_layer:
  "\<exists>l. ((\<lambda>rop. rop\<lparr>layer := create rop\<rparr>) ^^ n) rop = rop\<lparr>layer := l\<rparr>"
proof (induction n)
  case 0
  have "rop = rop\<lparr>layer := layer rop\<rparr>"
    by simp
  then show ?case
    by (simp only: funpow_0) (rule exI)
next
  case (Suc n)
  then obtain l where "((\<lambda>rop. rop\<lparr>layer := create rop\<rparr>) ^^ n) rop = rop\<lparr>layer := l\<rparr>"
    by blast
  then show ?case
    by (intro exI [of _ "create (rop\<lparr>layer := l\<rparr>)"]) simp
qed

lemma rebound_fields:
  "output_operands (rebound create g p) = output_operands (op_heap g p)"
  "rebound create g p = (op_heap g p)\<lparr>layer := layer (rebound create g p)\<rparr>"
proof -
  obtain l where "((\<lambda>rop. rop\<lparr>layer := create rop\<rparr>) ^^ count_list (m_operators g) p) (op_heap g p)
      = (op_heap g p)\<lparr>layer := l\<rparr>"
    using funpow_layer by blast
  then show "output_operands (rebound create g p) = output_operands (op_heap g p)"
    and "rebound create g p = (op_heap g p)\<lparr>layer := layer (rebound create g p)\<rparr>"
    by (simp_all add: rebound_def)
qed







text \<open>
  On a graph with an output operand of rank 2 that has a buffer, such as the diamond, a
  second \<open>Build\<close> ends in the loop of lines 101 to 109, which reads index 2 of the shape
  of the operand.
\<close>

lemma rebuild_rank2_aborts:
  "m_graph_state ex_diamond_graph = Complete
   \<and> map_sum id (\<lambda>g. ())
        (Build (\<lambda>param bin. (0, ex_diamond)) ex_create ex_diamond_graph ''in'' ''out'') = Inl OutOfRange"
  by code_simp

text \<open>
  That holds of every graph: the loop of lines 101 to 109 runs once for each buffer of an
  output operand that exists, and for a descriptor of rank 2 it either fails the check of
  \<^verbatim>\<open>tensor_shapes.at(0) == 1\<close> or reads \<^verbatim>\<open>tensor_shapes.at(2)\<close> of a shape with two entries.
  So a second \<open>Build\<close> does not return when a node with an output of rank 2 has an output
  operand with a buffer.
\<close>

lemma check_output_operand_rank2:
  assumes "length shp = 2" "datas od \<noteq> []"
  shows "check_output_operand batch shp od \<noteq> Inr u"
proof -
  from assms(2) obtain d ds where "datas od = d # ds"
    by (cases "datas od") simp_all
  moreover from assms(1) have "isl (check_output_buffer shp shp)"
    by (auto simp: check_output_buffer_def CHECK_def and_also_def at_is_def at_equal_def vector_at_def
        split: sum.splits)
  ultimately show ?thesis
    by (auto simp: check_output_operand_def split: sum.splits)
qed

lemma init_output_tensor_rank2:
  assumes "pnnx_outputs pop = Some operand # rest" "length (pnnx_shape operand) = 2"
    and "output_operands (op_heap g p) = Some r" "datas (operand_heap g r) \<noteq> []"
  shows "isl (init_output_tensor (Some pop) p g)"
  using assms check_output_operand_rank2 [of "pnnx_shape operand" "operand_heap g r"]
  by (auto simp: init_output_tensor_def split: sum.splits)

lemma init_output_tensors_rank2:
  assumes "(Some pop, p) \<in> set xs"
    and "pnnx_outputs pop = Some operand # rest" "length (pnnx_shape operand) = 2"
    and "output_operands (op_heap g p) = Some r" "r < free_operand g"
    and "datas (operand_heap g r) \<noteq> []"
  shows "isl (init_output_tensors xs g)"
  using assms(1,4,5,6)
proof (induction xs arbitrary: g)
  case Nil
  then show ?case by simp
next
  case (Cons y xs)
  obtain pop' q where y: "y = (pop', q)" by (cases y)
  show ?case
  proof (cases "init_output_tensor pop' q g")
    case (Inl e)
    then show ?thesis by (simp add: y)
  next
    case (Inr g1)
    note kept = init_output_tensor_kept [OF Inr]
    from Inr init_output_tensor_rank2 [OF assms(2,3) Cons.prems(2,4)]
    have "y \<noteq> (Some pop, p)"
      by (auto simp: y)
    with Cons.prems(1) have mem: "(Some pop, p) \<in> set xs"
      by simp
    from kept(1) Cons.prems(2,3) have "output_operands (op_heap g1 p) = Some r" "r < free_operand g1"
      by (auto simp: output_operands_kept_def)
    moreover from kept(3) [OF Cons.prems(3)] Cons.prems(4) have "datas (operand_heap g1 r) \<noteq> []"
      by simp
    ultimately have "isl (init_output_tensors xs g1)"
      using mem by (intro Cons.IH)
    with Inr show ?thesis
      by (simp add: y)
  qed
qed

lemma Build_Complete_rank2:
  assumes "m_graph_state g = Complete" "m_graph g = Some pops"
    and "(Some pop, p) \<in> set (zip pops (m_operators g))"
    and "pnnx_outputs pop = Some operand # rest" "length (pnnx_shape operand) = 2"
    and "output_operands (op_heap g p) = Some r" "r < free_operand g"
    and "datas (operand_heap g r) \<noteq> []"
  shows "isl (Build load create g input_name output_name)"
proof (rule ccontr)
  assume "\<not> isl (Build load create g input_name output_name)"
  then obtain g' where "Build load create g input_name output_name = Inr g'"
    by (cases "Build load create g input_name output_name") simp_all
  with assms(1) obtain g2 g3 ops g4 where
    b: "bind_layers create (m_operators g)
          (g\<lparr>m_input_operators_maps := [], m_output_operators_maps := []\<rparr>) = Inr g2"
    and i: "InitOperatorInputTensor (m_operators g2) g2 = Inr g3"
    and ops: "m_graph g3 = Some ops"
    and o: "InitOperatorOutputTensor ops (m_operators g3) g3 = Inr g4"
    by (auto simp: Build_Complete split: if_splits sum.splits option.splits)
  note frame = bind_layers_frame [OF b]
  note inp = InitOperatorInputTensor_kept [OF i, of r]
  have node: "op_heap g2 p = rebound create g p"
    using bind_layers_nodes [OF b, of p] by (simp add: rebound_def)
  have "output_operands (op_heap g3 p) = Some r"
    using inp assms(6) by (simp add: node rebound_fields(1))
  moreover have "r < free_operand g3"
    using inp frame assms(7) by simp
  moreover have "datas (operand_heap g3 r) \<noteq> []"
    using inp frame assms(8) by (auto simp: operand_kept_def)
  moreover have "(Some pop, p) \<in> set (zip ops (m_operators g3))"
    using inp frame assms(2,3) ops by simp
  ultimately have "isl (init_output_tensors (zip ops (m_operators g3)) g3)"
    using assms(4,5) by (intro init_output_tensors_rank2) 
  with o show False
    by (simp add: InitOperatorOutputTensor_def split: if_splits)
qed

section \<open>The scheduler on a well-formed graph\<close>

lemma deliveries_append [simp]: "deliveries (es @ es') = deliveries es @ deliveries es'"
  by (induction es rule: deliveries.induct) simp_all

lemma delivered_bound:
  assumes inj: "inj_on (\<lambda>p. op_name (op_heap g p)) (set (m_operators g))"
    and dist: "distinct ds"
    and known: "\<forall>d \<in> set ds. fst d \<in> set (m_operators g)
        \<and> op_name (op_heap g (fst d)) \<in> fst ` set (input_operands (op_heap g (snd d)))"
  shows "length (filter (\<lambda>d. snd d = c) ds) \<le> producers g c"
proof -
  let ?f = "filter (\<lambda>d. snd d = c) ds"
  let ?name = "\<lambda>p. op_name (op_heap g p)"
  let ?h = "?name \<circ> fst"
  have one: "inj_on fst (set ?f)"
    by (auto simp: inj_on_def)
  have sub: "fst ` set ?f \<subseteq> set (m_operators g)"
    using known by auto
  have two: "inj_on ?name (fst ` set ?f)"
    using inj sub by (rule inj_on_subset)
  have "inj_on ?h (set ?f)"
    using one two by (rule comp_inj_on)
  moreover have "distinct ?f"
    using dist by simp
  ultimately have d: "distinct (map ?h ?f)"
    by (simp add: distinct_map)
  have "set (map ?h ?f) \<subseteq> set (map fst (input_operands (op_heap g c)))"
    using known by auto
  then have "card (set (map ?h ?f)) \<le> card (set (map fst (input_operands (op_heap g c))))"
    by (intro card_mono) simp_all
  also have "\<dots> \<le> length (map fst (input_operands (op_heap g c)))"
    by (rule card_length)
  finally have "card (set (map ?h ?f)) \<le> producers g c"
    by (simp add: producers_def)
  moreover have "card (set (map ?h ?f)) = length ?f"
    using distinct_card [OF d] by simp
  ultimately show ?thesis by simp
qed

lemma wf_graph_names:
  assumes "wf_graph g"
  shows "inj_on (\<lambda>p. op_name (op_heap g p)) (set (m_operators g))"
  using assms by (simp add: wf_graph_def distinct_map)

lemma wf_graph_node:
  assumes "wf_graph g" "p \<in> set (m_operators g)"
  shows "counter g p = 0"
    and "distinct (map snd (output_operators (op_heap g p)))"
    and "set (map snd (output_operators (op_heap g p))) \<subseteq> set (m_operators g)"
  using assms by (auto simp: wf_graph_def list_all_iff counter_def)

lemma wf_inv_bound:
  assumes "wf_graph g" "wf_inv g input_op s" "c \<in> set (m_operators g)"
  shows "counter (graph s) c \<le> producers g c"
proof -
  from assms(2,3) have "counter (graph s) c = length (filter (\<lambda>d. snd d = c) (deliveries (trace s)))"
    by (simp add: wf_inv_def)
  also have "\<dots> \<le> producers g c"
    using assms(2) by (intro delivered_bound wf_graph_names [OF assms(1)]) (auto simp: wf_inv_def)
  finally show ?thesis .
qed

lemma wf_inv_net_delivery:
  assumes inv: "wf_inv g input_op s"
    and cur: "p \<in> set (m_operators g)" "p = input_op \<or> p \<in> set (invoked (trace s))"
    and cons: "c \<in> set (m_operators g)"
    and known: "op_name (op_heap g p) \<in> fst ` set (input_operands (op_heap g c))"
    and new: "(p, c) \<notin> set (deliveries (trace s))"
    and source: "producers g input_op = 0"
  shows "wf_inv g input_op (net_delivery p c r ts s)"
proof -
  let ?s = "net_delivery p c r ts s"
  from inv have same: "same_nodes g (graph s)"
    by (simp add: wf_inv_def)
  have same': "same_nodes g (graph ?s)"
    using same same_nodes_net_delivery by (rule same_nodes_trans)
  have prod: "producers (graph s) q = producers g q" for q
    using same_nodes_fields(8) [OF same] .
  have del: "deliveries (trace ?s) = deliveries (trace s) @ [(p, c)]"
    and inv': "invoked (trace ?s) = invoked (trace s)"
    and chk: "list_all check_le (trace ?s) = list_all check_le (trace s)"
    by (simp_all add: net_delivery_trace)
  have q: "set (operator_queue ?s) \<subseteq> insert c (set (operator_queue s))"
    by (auto simp: net_delivery_queue)
  have enq: "set (enqueued (trace ?s)) \<subseteq> insert c (set (enqueued (trace s)))"
    by (auto simp: net_delivery_trace)
  have no_input: "input_op \<notin> set (operator_queue ?s)"
    using inv source prod [of input_op] by (auto simp: net_delivery_queue wf_inv_def)
  show ?thesis
    unfolding wf_inv_def del inv' chk
    using inv cur cons known new same' q enq no_input
    by (auto simp: wf_inv_def net_delivery_counter)
qed

lemma wf_inv_probe_next:
  assumes inv: "wf_inv g input_op s"
    and cur: "p \<in> set (m_operators g)" "p = input_op \<or> p \<in> set (invoked (trace s))"
    and cons: "c \<in> set (m_operators g)"
    and new: "(p, c) \<notin> set (deliveries (trace s))"
    and source: "producers g input_op = 0"
  shows "case probe_next p ds c s of
           Inl x \<Rightarrow> list_all check_le (trace (snd x))
         | Inr s' \<Rightarrow> wf_inv g input_op s'
                    \<and> set (deliveries (trace s')) \<subseteq> insert (p, c) (set (deliveries (trace s)))
                    \<and> set (invoked (trace s)) \<subseteq> set (invoked (trace s'))"
proof (cases "map_of (input_operands (op_heap (graph s) c)) (op_name (op_heap (graph s) p))")
  case None
  then show ?thesis using inv by (auto simp: probe_next_unfold)
next
  case (Some r)
  from inv have same: "same_nodes g (graph s)" and chk: "list_all check_le (trace s)"
    by (simp_all add: wf_inv_def)
  from Some have "(op_name (op_heap (graph s) p), r) \<in> set (input_operands (op_heap (graph s) c))"
    by (rule map_of_SomeD)
  then have "op_name (op_heap (graph s) p) \<in> fst ` set (input_operands (op_heap (graph s) c))"
    by force
  then have known: "op_name (op_heap g p) \<in> fst ` set (input_operands (op_heap g c))"
    using same_nodes_fields(1,3) [OF same] by simp
  let ?ts = "map (\<lambda>(d, s). set_data d s) (zip (datas (operand_heap (graph s) r)) ds)"
  have net: "wf_inv g input_op (net_delivery p c r ?ts s)"
    using inv cur cons known new source by (rule wf_inv_net_delivery)
  have del: "set (deliveries (trace (net_delivery p c r ?ts s))) \<subseteq> insert (p, c) (set (deliveries (trace s)))"
    and inv': "set (invoked (trace s)) \<subseteq> set (invoked (trace (net_delivery p c r ?ts s)))"
    by (auto simp: net_delivery_trace)
  show ?thesis
    using chk net del inv' by (simp add: probe_next_unfold Some)
qed

lemma wf_inv_probe_all:
  assumes inv: "wf_inv g input_op s"
    and cur: "p \<in> set (m_operators g)" "p = input_op \<or> p \<in> set (invoked (trace s))"
    and cons: "set cs \<subseteq> set (m_operators g)" "distinct cs"
    and new: "\<forall>c \<in> set cs. (p, c) \<notin> set (deliveries (trace s))"
    and source: "producers g input_op = 0"
  shows "case probe_all p ds cs s of
           Inl x \<Rightarrow> list_all check_le (trace (snd x))
         | Inr s' \<Rightarrow> wf_inv g input_op s'"
  using inv cur(2) cons new
proof (induction cs arbitrary: s)
  case Nil
  then show ?case by simp
next
  case (Cons c cs)
  have c: "c \<in> set (m_operators g)" and fresh: "(p, c) \<notin> set (deliveries (trace s))"
    using Cons.prems by simp_all
  note step = wf_inv_probe_next [OF Cons.prems(1) cur(1) Cons.prems(2) c fresh source, of ds]
  show ?case
  proof (cases "probe_next p ds c s")
    case (Inl x)
    with step show ?thesis by simp
  next
    case (Inr s')
    with step have inv': "wf_inv g input_op s'"
      and del: "set (deliveries (trace s')) \<subseteq> insert (p, c) (set (deliveries (trace s)))"
      and mono: "set (invoked (trace s)) \<subseteq> set (invoked (trace s'))"
      by simp_all
    have flag: "p = input_op \<or> p \<in> set (invoked (trace s'))"
      using Cons.prems(2) mono by auto
    have rest: "set cs \<subseteq> set (m_operators g)" "distinct cs"
      using Cons.prems by simp_all
    have new': "\<forall>c' \<in> set cs. (p, c') \<notin> set (deliveries (trace s'))"
      using Cons.prems(4,5) del by auto
    from Cons.IH [OF inv' flag rest new'] Inr show ?thesis
      by simp
  qed
qed

lemma wf_inv_log:
  assumes "wf_inv g input_op s" "deliveries [e] = []" "enqueued [e] = []" "check_le e"
    and "same_nodes (graph s) g'"
    and "\<And>c. counter g' c = counter (graph s) c"
  shows "wf_inv g input_op (log_event e (s\<lparr>graph := g'\<rparr>))"
proof -
  have "same_nodes g g'"
    using assms(1,5) by (auto simp: wf_inv_def intro: same_nodes_trans)
  then show ?thesis
    using assms by (auto simp: wf_inv_def log_event_def)
qed

lemma wf_inv_ProbeNextLayer:
  assumes wf: "wf_graph g" and inv: "wf_inv g input_op s"
    and cur: "p \<in> set (m_operators g)" "p = input_op \<or> p \<in> set (invoked (trace s))"
    and new: "\<forall>c. (p, c) \<notin> set (deliveries (trace s))"
    and source: "producers g input_op = 0"
  shows "case ProbeNextLayer p ds s of
           Inl x \<Rightarrow> list_all check_le (trace (snd x))
         | Inr s' \<Rightarrow> wf_inv g input_op s'"
proof -
  from inv have same: "same_nodes g (graph s)"
    by (simp add: wf_inv_def)
  have edges: "output_operators (op_heap (graph s) p) = output_operators (op_heap g p)"
    using same_nodes_fields(2) [OF same] .
  show ?thesis
    unfolding ProbeNextLayer_def edges
    using inv cur wf_graph_node(3) [OF wf cur(1)] wf_graph_node(2) [OF wf cur(1)] _ source
    by (rule wf_inv_probe_all) (use new in simp)
qed

lemma wf_inv_run_layer:
  assumes wf: "wf_graph g" and inv: "wf_inv g input_op s"
    and cur: "p \<in> set (m_operators g)" "p \<noteq> input_op" "p \<notin> set (invoked (trace s))"
    and source: "producers g input_op = 0"
  shows "case run_layer lf p s of
           Next s' \<Rightarrow> wf_inv g input_op s'
         | Stop s' \<Rightarrow> list_all check_le (trace s')
         | Fatal e s' \<Rightarrow> list_all check_le (trace s')"
proof -
  from inv have chk: "list_all check_le (trace s)"
    by (simp add: wf_inv_def)
  have none: "\<forall>c. (p, c) \<notin> set (deliveries (trace s))"
    using inv cur(2,3) by (force simp: wf_inv_def)
  have logged: "wf_inv g input_op (log_event (Invoke p m n) (s\<lparr>graph := set_datas out ts (graph s)\<rparr>))"
    for m n out ts
    using inv by (rule wf_inv_log) simp_all
  have probe: "case ProbeNextLayer p ds (log_event (Invoke p m n) (s\<lparr>graph := set_datas out ts (graph s)\<rparr>)) of
           Inl x \<Rightarrow> list_all check_le (trace (snd x))
         | Inr s' \<Rightarrow> wf_inv g input_op s'" for ds m n out ts
    using wf logged cur(1) _ _ source
    by (rule wf_inv_ProbeNextLayer) (use none in \<open>simp_all add: log_event_def\<close>)
  have probe_ok: "wf_inv g input_op s'"
    if "ProbeNextLayer p ds (log_event (Invoke p m n) (s\<lparr>graph := set_datas out ts (graph s)\<rparr>)) = Inr s'"
    for ds m n out ts s'
    using probe [of ds m n out ts] that by simp
  have probe_fatal: "list_all check_le (trace b)"
    if "ProbeNextLayer p ds (log_event (Invoke p m n) (s\<lparr>graph := set_datas out ts (graph s)\<rparr>)) = Inl (a, b)"
    for ds m n out ts a b
    using probe [of ds m n out ts] that by simp
  have failed: "list_all check_le (trace (log_event (Invoke p m n) (s\<lparr>graph := set_datas out ts (graph s)\<rparr>)))"
    for m n out ts
    using chk by (simp add: log_event_def)
  show ?thesis
    unfolding run_layer_def Let_def
    using chk failed probe_ok probe_fatal
    by (auto split: option.splits sum.splits)
qed

lemma wf_head_head_inv: "wf_head g input_op s \<Longrightarrow> head_inv input_op s"
  by (auto simp: wf_head_def head_inv_def)

lemma wf_inv_fresh:
  assumes "wf_graph g" "trace s = []" "operator_queue s = []" "graph s = g"
  shows "wf_inv g input_op s"
  using assms wf_graph_node(1) [OF assms(1)] by (simp add: wf_inv_def)

lemma wf_inv_pop:
  assumes "wf_inv g input_op s" "operator_queue s = p # rest"
  shows "wf_inv g input_op (s\<lparr>operator_queue := rest\<rparr>)"
    and "p \<noteq> input_op" and "p \<in> set (m_operators g)"
  using assms by (auto simp: wf_inv_def)

lemma wf_forward_body:
  assumes wf: "wf_graph g" and head: "wf_head g input_op s" and busy: "operator_queue s \<noteq> []"
    and source: "input_op \<in> set (m_operators g)" "producers g input_op = 0"
  shows "case forward_body lf inputs input_op output_op s of
           Next s' \<Rightarrow> wf_inv g input_op s'
         | Stop s' \<Rightarrow> list_all check_le (trace s')
         | Fatal e s' \<Rightarrow> list_all check_le (trace s')"
proof -
  from busy obtain p rest where q: "operator_queue s = p # rest"
    by (cases "operator_queue s") auto
  let ?s1 = "s\<lparr>operator_queue := rest\<rparr>"
  from head consider (first) "operator_queue s = [input_op]" "trace s = []" "graph s = g"
    | (later) "pass_inv s" "wf_inv g input_op s"
    by (auto simp: wf_head_def)
  then show ?thesis
  proof cases
    case first
    with q have p: "p = input_op" and rest: "rest = []"
      by simp_all
    have inv1: "wf_inv g input_op ?s1"
      using wf first(2,3) rest by (intro wf_inv_fresh) simp_all
    have probe: "case ProbeNextLayer input_op inputs ?s1 of
           Inl x \<Rightarrow> list_all check_le (trace (snd x))
         | Inr s' \<Rightarrow> wf_inv g input_op s'"
      using wf inv1 source(1) _ _ source(2)
      by (rule wf_inv_ProbeNextLayer) (simp_all add: first(2))
    show ?thesis
      using probe first(2)
      by (auto simp: forward_body_def q p Let_def split: sum.splits)
  next
    case later
    note pop = pass_inv_pop [OF later(1) q]
    note wpop = wf_inv_pop [OF later(2) q]
    from later(2) have same: "same_nodes g (graph s)"
      by (simp add: wf_inv_def)
    let ?m = "meet_num (op_heap (graph s) p)"
    let ?n = "length (input_operands (op_heap (graph s) p))"
    let ?s2 = "log_event (Check p ?m ?n) ?s1"
    have n: "?n = producers g p"
      using same_nodes_fields(8) [OF same, of p] by (simp add: producers_def)
    have le: "?m \<le> ?n"
      using wf_inv_bound [OF wf later(2) wpop(3)] n by (simp add: counter_def)
    have ge: "?n \<le> ?m"
      using pop(4) by (simp add: producers_def counter_def)
    have chk1: "list_all check_le (trace ?s1)"
      using wpop(1) by (simp add: wf_inv_def)
    have "wf_inv g input_op (log_event (Check p ?m ?n) (?s1\<lparr>graph := graph ?s1\<rparr>))"
      using wpop(1) by (rule wf_inv_log) (simp_all add: le)
    then have inv2: "wf_inv g input_op ?s2"
      by simp
    have ready: "CheckOperatorReady (op_heap (graph s) p) = Inr True"
      using le ge by (simp add: CheckOperatorReady_def)
    have run: "case run_layer lf p ?s2 of
           Next s' \<Rightarrow> wf_inv g input_op s'
         | Stop s' \<Rightarrow> list_all check_le (trace s')
         | Fatal e s' \<Rightarrow> list_all check_le (trace s')"
      using wf inv2 wpop(3) wpop(2) _ source(2)
      by (rule wf_inv_run_layer) (use pop(3) in \<open>simp add: log_event_def\<close>)
    show ?thesis
      using chk1 run wpop(2) ready
      by (auto simp: forward_body_def q Let_def)
  qed
qed

lemma wf_forward_loop:
  assumes wf: "wf_graph g" and head: "wf_head g input_op s"
    and source: "input_op \<in> set (m_operators g)" "producers g input_op = 0"
    and run: "forward_loop fuel lf inputs input_op output_op s = Some r"
  shows "list_all check_le (trace (outcome_state r))"
  using head run
proof (induction fuel arbitrary: s)
  case 0
  then show ?case
    by (auto simp: outcome_state_def wf_head_def wf_inv_def split: if_splits)
next
  case (Suc n)
  show ?case
  proof (cases "operator_queue s = []")
    case True
    with Suc.prems show ?thesis
      by (auto simp: outcome_state_def wf_head_def wf_inv_def)
  next
    case False
    note body = wf_forward_body [OF wf Suc.prems(1) False source, of lf inputs output_op]
    note pbody = pass_inv_forward_body [OF wf_head_head_inv [OF Suc.prems(1)] False, of lf inputs output_op]
    show ?thesis
    proof (cases "forward_body lf inputs input_op output_op s")
      case (Next s')
      with Suc.prems False have run': "forward_loop n lf inputs input_op output_op s' = Some r"
        by simp
      from body pbody Next have "wf_head g input_op s'"
        by (simp add: wf_head_def flow_state_def)
      from Suc.IH [OF this run'] show ?thesis .
    next
      case (Stop s')
      with Suc.prems False body show ?thesis
        by (auto simp: outcome_state_def)
    next
      case (Fatal e s')
      with Suc.prems False body show ?thesis
        by (auto simp: outcome_state_def)
    qed
  qed
qed

lemma Forward_checks_le:
  assumes wf: "wf_graph g" and run: "Forward fuel lf g inputs debug = Some r"
  shows "list_all check_le (trace (final_state r))"
proof -
  have loop: "list_all check_le (trace (outcome_state x))"
    if "map_of (m_input_operators_maps g) (m_input_name g) = Some input_op"
      and "forward_loop fuel lf inputs input_op output_op
          \<lparr>graph = g, operator_queue = [input_op], trace = []\<rparr> = Some x" for input_op output_op x
  proof -
    from wf that(1) have source: "input_op \<in> set (m_operators g)" "producers g input_op = 0"
      by (simp_all add: wf_graph_def producers_def)
    have "wf_head g input_op \<lparr>graph = g, operator_queue = [input_op], trace = []\<rparr>"
      by (simp add: wf_head_def)
    from wf_forward_loop [OF wf this source that(2)] show ?thesis .
  qed
  from run show ?thesis
  proof (cases rule: Forward_cases)
    case (rejected e)
    then show ?thesis by (simp add: final_state_def)
  next
    case (fatal input_op output_op e s)
    with loop [OF fatal(1,3)] show ?thesis by (simp add: final_state_def outcome_state_def)
  next
    case (paths input_op output_op s)
    with loop [OF paths(1,3)] show ?thesis
      by (simp add: final_state_def outcome_state_def reset_counters_def)
  next
    case (returned input_op output_op s k x)
    with loop [OF returned(1,3)] show ?thesis
      by (simp add: final_state_def outcome_state_def reset_counters_def)
  qed
qed

lemma check_le_Check:
  assumes "list_all check_le xs" "Check p m n \<in> set xs"
  shows "m \<le> n"
  using assms by (auto simp: list_all_iff)

text \<open>
  C9.  In every pass over a well-formed built graph, every node that is dequeued and is
  neither the input nor the output node is ready at the readiness test of line 284: its
  counter equals its number of distinct producers.  The branch of lines 285 to 288, which
  pushes a node that is not ready back, is never taken; this part holds for every graph.
\<close>

theorem dequeued_node_is_ready:
  assumes "wf_graph g" "Forward fuel lf g inputs debug = Some r"
  shows "retried (trace (final_state r)) = []
     \<and> (\<forall>p m n. Check p m n \<in> set (trace (final_state r)) \<longrightarrow>
           m = producers g p \<and> n = producers g p)"
proof -
  from Forward_trace_ok(1) [OF assms(2)]
  have ok: "list_all (event_ok g (trace (final_state r))) (trace (final_state r))"
    by (simp add: trace_ok_def)
  note le = Forward_checks_le [OF assms]
  have "m = producers g p \<and> n = producers g p"
    if "Check p m n \<in> set (trace (final_state r))" for p m n
    using event_ok_Check [OF ok that] check_le_Check [OF le that] by simp
  with event_ok_no_Retry [OF ok] show ?thesis
    by blast
qed

theorem dequeued_node_is_ready_witness:
  "wf_graph ex_diamond_graph
   \<and> map_option (\<lambda>r. trace (final_state r)) (Forward 9 ex_forward ex_diamond_graph ex_inputs False)
     = Some [Enqueue 1 False 1 1, Deliver 0 1 1 1, Enqueue 2 False 1 1, Deliver 0 2 1 1,
             Check 1 1 1, Invoke 1 1 1, Deliver 1 3 1 2, Check 2 1 1, Invoke 2 1 1,
             Enqueue 3 False 2 2, Deliver 2 3 2 2, Check 3 2 2, Invoke 3 2 2,
             Enqueue 4 False 1 1, Deliver 3 4 1 1]
   \<and> producers ex_diamond_graph 3 = 2
   \<and> map_option (\<lambda>r. retried (trace (final_state r)))
        (Forward 9 ex_forward ex_diamond_graph ex_inputs False) = Some []"
proof -
  let ?t = "[Enqueue 1 False 1 1, Deliver 0 1 1 1, Enqueue 2 False 1 1, Deliver 0 2 1 1,
             Check 1 1 1, Invoke 1 1 1, Deliver 1 3 1 2, Check 2 1 1, Invoke 2 1 1,
             Enqueue 3 False 2 2, Deliver 2 3 2 2, Check 3 2 2, Invoke 3 2 2,
             Enqueue 4 False 1 1, Deliver 3 4 1 1]"
  have wf: "wf_graph ex_diamond_graph"
    by code_simp
  have run: "map_option (\<lambda>r. trace (final_state r)) (Forward 9 ex_forward ex_diamond_graph ex_inputs False)
     = Some ?t"
    by code_simp
  then obtain r where r: "Forward 9 ex_forward ex_diamond_graph ex_inputs False = Some r"
    and t: "trace (final_state r) = ?t"
    by auto
  note facts = dequeued_node_is_ready [OF wf r]
  have "Check 3 2 2 \<in> set (trace (final_state r))"
    by (simp add: t)
  with facts have two: "2 = producers ex_diamond_graph 3"
    by blast
  from facts have "retried (trace (final_state r)) = []"
    by blast
  with wf run two r show ?thesis
    by simp
qed

subsection \<open>The pass ends\<close>

text \<open>
  The loop of lines 266 to 322 is modelled with fuel.  On a well-formed graph every round
  of the loop pops one node and pushes only nodes that were never pushed before, so the
  number of rounds is at most the number of nodes plus one (for the input node, which
  line 264 pushes): with that much fuel \<open>Forward\<close> always gives a result, so the theorems
  above about a pass that ends speak of every pass over such a graph.
\<close>

lemma balance_probe_next:
  assumes "probe_next p ds c s = Inr s'"
  shows "length (operator_queue s') + length (enqueued (trace s))
       = length (operator_queue s) + length (enqueued (trace s'))"
  using assms
  by (auto simp: probe_next_unfold net_delivery_queue net_delivery_trace
      split: option.splits if_splits)

lemma balance_probe_all:
  assumes "probe_all p ds cs s = Inr s'"
  shows "length (operator_queue s') + length (enqueued (trace s))
       = length (operator_queue s) + length (enqueued (trace s'))"
  using assms
proof (induction cs arbitrary: s)
  case Nil
  then show ?case by simp
next
  case (Cons c cs)
  then obtain s1 where one: "probe_next p ds c s = Inr s1" and rest: "probe_all p ds cs s1 = Inr s'"
    by (auto split: sum.splits)
  from balance_probe_next [OF one] Cons.IH [OF rest] show ?case
    by simp
qed

lemma balance_run_layer:
  assumes "run_layer lf p s = Next s'"
  shows "length (operator_queue s') + length (enqueued (trace s))
       = length (operator_queue s) + length (enqueued (trace s'))"
proof -
  from assms obtain e g' ds where
    "ProbeNextLayer p ds (log_event e (s\<lparr>graph := g'\<rparr>)) = Inr s'" "enqueued [e] = []"
    by (auto simp: run_layer_def Let_def split: option.splits if_splits sum.splits)
  then show ?thesis
    using balance_probe_all [of p ds _ "log_event e (s\<lparr>graph := g'\<rparr>)" s']
    by (simp add: ProbeNextLayer_def log_event_def)
qed

lemma balance_forward_body:
  assumes head: "head_inv input_op s"
    and step: "forward_body lf inputs input_op output_op s = Next s'"
  shows "length (operator_queue s') + length (enqueued (trace s)) + 1
       = length (operator_queue s) + length (enqueued (trace s'))"
proof -
  from step obtain p rest where q: "operator_queue s = p # rest"
    by (cases "operator_queue s") (auto simp: forward_body_def)
  let ?s1 = "s\<lparr>operator_queue := rest\<rparr>"
  show ?thesis
  proof (cases "p = input_op")
    case True
    with step q have "ProbeNextLayer p inputs ?s1 = Inr s'"
      by (auto simp: forward_body_def Let_def split: if_splits sum.splits)
    from balance_probe_all [OF this [unfolded ProbeNextLayer_def]] q show ?thesis
      by simp
  next
    case False
    with head q have inv: "pass_inv s"
      by (auto simp: head_inv_def)
    let ?m = "meet_num (op_heap (graph s) p)"
    let ?n = "length (input_operands (op_heap (graph s) p))"
    have "?n \<le> ?m"
      using pass_inv_pop(4) [OF inv q] by (simp add: producers_def counter_def)
    then have "CheckOperatorReady (op_heap (graph s) p) \<noteq> Inr False"
      by (auto simp: CheckOperatorReady_def)
    with step q False have "run_layer lf p (log_event (Check p ?m ?n) ?s1) = Next s'"
      by (auto simp: forward_body_def Let_def split: if_splits sum.splits)
    from balance_run_layer [OF this] q show ?thesis
      by (simp add: log_event_def)
  qed
qed

lemma wf_inv_pushed:
  assumes "pass_inv s" "wf_inv g input_op s"
  shows "length (enqueued (trace s)) \<le> length (m_operators g)"
proof -
  from assms have "distinct (enqueued (trace s))" "set (enqueued (trace s)) \<subseteq> set (m_operators g)"
    by (simp_all add: pass_inv_def wf_inv_def)
  then have "length (enqueued (trace s)) \<le> card (set (m_operators g))"
    by (metis card_mono distinct_card List.finite_set)
  also have "\<dots> \<le> length (m_operators g)"
    by (rule card_length)
  finally show ?thesis .
qed

lemma forward_loop_ends:
  assumes wf: "wf_graph g" and head: "wf_head g input_op s"
    and source: "input_op \<in> set (m_operators g)" "producers g input_op = 0"
    and fuel: "length (operator_queue s) + length (m_operators g) \<le> fuel + length (enqueued (trace s))"
  shows "\<exists>r. forward_loop fuel lf inputs input_op output_op s = Some r"
  using head fuel
proof (induction fuel arbitrary: s)
  case 0
  have "operator_queue s = []"
  proof (cases "pass_inv s \<and> wf_inv g input_op s")
    case True
    then have "length (enqueued (trace s)) \<le> length (m_operators g)"
      by (blast intro: wf_inv_pushed)
    with "0.prems"(2) have "length (operator_queue s) = 0"
      by arith
    then show ?thesis by simp
  next
    case False
    with "0.prems" show ?thesis by (auto simp: wf_head_def)
  qed
  then show ?case by simp
next
  case (Suc n)
  show ?case
  proof (cases "operator_queue s = []")
    case True
    then show ?thesis by simp
  next
    case False
    note hd = wf_head_head_inv [OF Suc.prems(1)]
    show ?thesis
    proof (cases "forward_body lf inputs input_op output_op s")
      case (Next s')
      from wf_forward_body [OF wf Suc.prems(1) False source, of lf inputs output_op]
        pass_inv_forward_body [OF hd False, of lf inputs output_op] Next
      have head': "wf_head g input_op s'"
        by (simp add: wf_head_def flow_state_def)
      from balance_forward_body [OF hd Next] Suc.prems(2)
      have "length (operator_queue s') + length (m_operators g) \<le> n + length (enqueued (trace s'))"
        by simp
      from Suc.IH [OF head' this] Next False show ?thesis
        by simp
    next
      case (Stop s')
      with False show ?thesis by simp
    next
      case (Fatal e s')
      with False show ?thesis by simp
    qed
  qed
qed

lemma Forward_ends:
  assumes "wf_graph g"
  shows "\<exists>r. Forward (Suc (length (m_operators g))) lf g inputs debug = Some r"
proof (cases "map_of (m_input_operators_maps g) (m_input_name g)")
  case None
  then show ?thesis by (simp add: Forward_def Let_def)
next
  case (Some input_op)
  with assms have source: "input_op \<in> set (m_operators g)" "producers g input_op = 0"
    by (simp_all add: wf_graph_def producers_def)
  have head: "wf_head g input_op \<lparr>graph = g, operator_queue = [input_op], trace = []\<rparr>"
    by (simp add: wf_head_def)
  have "\<exists>r. forward_loop (Suc (length (m_operators g))) lf inputs input_op output_op
          \<lparr>graph = g, operator_queue = [input_op], trace = []\<rparr> = Some r" for output_op
    using assms head source by (rule forward_loop_ends) simp
  then obtain r where "forward_loop (Suc (length (m_operators g))) lf inputs input_op output_op
          \<lparr>graph = g, operator_queue = [input_op], trace = []\<rparr> = Some (r output_op)" for output_op
    by metis
  then show ?thesis
    by (auto simp: Forward_def Let_def Some push_back_def simp del: forward_loop.simps
        split: option.splits sum.splits list.splits)
qed

end
